(* ===== verification/Prelude.thy ===== *)
theory Prelude
  imports Main "HOL-Library.Word"
begin

text \<open>
  Shared vocabulary of the development: error numbers and the ways a process of the programs
  can stop, C strings and fixed-size character buffers, the number formats the programs print,
  and the generic list and sum lemmas that the component theories use.
\<close>

named_theorems fmt_simps \<open>equations that evaluate formatted output\<close>
named_theorems buf_simps \<open>equations for C strings and buffers\<close>

subsection \<open>Errors and ways to stop\<close>

text \<open>The error numbers the programs test for or can meet.\<close>

datatype errno =
    EINTR | EAGAIN | ECHILD | EBADF | EPIPE | ETIMEDOUT | EEXIST | EINVAL | ENOENT
  | ENOMEM | EMFILE | EIDRM | EDEADLK | EADDRINUSE | ECONNREFUSED | EACCES | EIO | EOVERFLOW | EPERM

text \<open>The texts \<open>strerror\<close> of the GNU C library gives for them.\<close>

fun strerror :: "errno \<Rightarrow> string" where
  "strerror EINTR = ''Interrupted system call''"
| "strerror EAGAIN = ''Resource temporarily unavailable''"
| "strerror ECHILD = ''No child processes''"
| "strerror EBADF = ''Bad file descriptor''"
| "strerror EPIPE = ''Broken pipe''"
| "strerror ETIMEDOUT = ''Connection timed out''"
| "strerror EEXIST = ''File exists''"
| "strerror EINVAL = ''Invalid argument''"
| "strerror ENOENT = ''No such file or directory''"
| "strerror ENOMEM = ''Cannot allocate memory''"
| "strerror EMFILE = ''Too many open files''"
| "strerror EIDRM = ''Identifier removed''"
| "strerror EDEADLK = ''Resource deadlock avoided''"
| "strerror EADDRINUSE = ''Address already in use''"
| "strerror ECONNREFUSED = ''Connection refused''"
| "strerror EACCES = ''Permission denied''"
| "strerror EIO = ''Input/output error''"
| "strerror EOVERFLOW = ''Value too large for defined data type''"
| "strerror EPERM = ''Operation not permitted''"

text \<open>
  How a process stops before its function returns: it exits with a status after writing a text
  to standard error, a signal kills it, or it has run into undefined behaviour of C (an access
  outside a buffer, a signed overflow).
\<close>

datatype halt = Exit (status: nat) (stderr_text: string) | Killed string | Undef string

type_synonym 'a res = "halt + 'a"

definition newline :: char where
  "newline = CHR 0x0A"

subsection \<open>Number formats\<close>

definition digit :: "nat \<Rightarrow> char" where
  "digit n = ''0123456789'' ! n"

fun digits :: "nat \<Rightarrow> string" where
  "digits n = (if n < 10 then [digit n] else digits (n div 10) @ [digit (n mod 10)])"

declare digits.simps [simp del]

text \<open>The conversions \<open>%d\<close> and \<open>%ld\<close> of \<open>printf\<close>.\<close>

definition fmt_d :: "int \<Rightarrow> string" where
  "fmt_d i = (if i < 0 then CHR ''-'' # digits (nat (- i)) else digits (nat i))"

lemmas [fmt_simps] = fmt_d_def digit_def newline_def

lemma digits_eval [fmt_simps]:
  "digits (numeral k) =
     (if numeral k < (10::nat) then [digit (numeral k)]
      else digits (numeral k div 10) @ [digit (numeral k mod 10)])"
  "digits 0 = [digit 0]"
  "digits (Suc 0) = [digit 1]"
  by (simp_all add: digits.simps)

lemma digits_nonempty [simp]: "digits n \<noteq> []"
  by (subst digits.simps) simp

text \<open>A number below \<open>10 ^ k\<close> prints in at most \<open>k\<close> characters.\<close>

lemma length_digits: "n < 10 ^ k \<Longrightarrow> 0 < k \<Longrightarrow> length (digits n) \<le> k"
proof (induction k arbitrary: n)
  case 0
  then show ?case by simp
next
  case (Suc k)
  show ?case
  proof (cases "n < 10")
    case True
    then show ?thesis by (simp add: digits.simps)
  next
    case False
    with Suc.prems have "n div 10 < 10 ^ k" and "0 < k"
      by (auto intro: gr0I)
    with Suc.IH have "length (digits (n div 10)) \<le> k" by blast
    with False show ?thesis by (simp add: digits.simps [of n])
  qed
qed

lemma length_fmt_d: "\<bar>i\<bar> < 10 ^ k \<Longrightarrow> 0 < k \<Longrightarrow> length (fmt_d i) \<le> Suc k"
proof -
  assume b: "\<bar>i\<bar> < 10 ^ k" and k: "0 < k"
  have "nat \<bar>i\<bar> < 10 ^ k"
    using b by (simp add: nat_less_iff)
  then have "length (digits (nat \<bar>i\<bar>)) \<le> k"
    using k by (rule length_digits)
  then show ?thesis
    by (auto simp: fmt_d_def)
qed

subsection \<open>C strings and buffers\<close>

text \<open>
  A C string in memory ends at the first NUL. The characters before it are a \<open>string\<close> without
  NUL; dereferencing a pointer that has reached the end of it reads the NUL.
\<close>

definition cstring :: "string \<Rightarrow> string" where
  "cstring bs = takeWhile (\<lambda>c. c \<noteq> CHR 0x00) bs"

fun peek :: "string \<Rightarrow> char" where
  "peek [] = CHR 0x00"
| "peek (c # cs) = c"

text \<open>\<open>isspace\<close> in the C locale: space, form feed, newline, carriage return and the two tabs.\<close>

definition isspace :: "char \<Rightarrow> bool" where
  "isspace c \<longleftrightarrow> c = CHR '' '' \<or> c = CHR 0x09 \<or> c = CHR 0x0A \<or> c = CHR 0x0B \<or> c = CHR 0x0C
     \<or> c = CHR 0x0D"

lemma isspace_simps [simp]:
  "isspace (CHR '' '')" "isspace (CHR 0x0A)" "\<not> isspace (CHR 0x00)" "\<not> isspace (CHR ''('')"
  "\<not> isspace (CHR '')'')" "\<not> isspace (CHR ''-'')" "\<not> isspace (CHR ''+'')"
  "\<not> isspace (CHR ''*'')" "\<not> isspace (CHR ''/'')"
  by (simp_all add: isspace_def)

lemma cstring_no_nul [simp]: "CHR 0x00 \<notin> set (cstring bs)"
  by (auto simp: cstring_def dest: set_takeWhileD)

lemma cstring_id [buf_simps]: "CHR 0x00 \<notin> set bs \<Longrightarrow> cstring bs = bs"
  unfolding cstring_def by (rule takeWhile_eq_all_conv [THEN iffD2]) auto

lemma length_cstring: "length (cstring bs) \<le> length bs"
  by (simp add: cstring_def length_takeWhile_le)

text \<open>
  \<open>snprintf (buf, sz, ...)\<close> stores at most \<open>sz - 1\<close> characters and a NUL and returns the
  length the whole text has.
\<close>

definition snprintf :: "nat \<Rightarrow> string \<Rightarrow> string \<times> int" where
  "snprintf sz txt = (take (sz - 1) txt, int (length txt))"

lemma snprintf_fits [buf_simps]:
  "length txt < sz \<Longrightarrow> snprintf sz txt = (txt, int (length txt))"
  by (simp add: snprintf_def)

text \<open>
  The idiom \<open>n = read (fd, buf, sz - 1); buf[n] = 0\<close>: the index is the result of the read,
  \<open>-1\<close> when it failed, and the store is defined only inside the buffer.
\<close>

definition terminate_at :: "nat \<Rightarrow> string \<Rightarrow> int \<Rightarrow> string res" where
  "terminate_at sz bytes n =
     (if 0 \<le> n \<and> n < int sz then Inr (cstring (take (nat n) bytes))
      else Inl (Undef ''store outside the buffer''))"

lemma terminate_at_ok [buf_simps]:
  "length bytes < sz \<Longrightarrow> terminate_at sz bytes (int (length bytes)) = Inr (cstring bytes)"
  by (simp add: terminate_at_def)

lemma terminate_at_error [buf_simps]:
  "terminate_at sz bytes (-1) = Inl (Undef ''store outside the buffer'')"
  by (simp add: terminate_at_def)

subsection \<open>Signed arithmetic\<close>

text \<open>C leaves the overflow of \<open>int\<close> undefined.\<close>

definition INT_MAX :: int where
  "INT_MAX = 2147483647"

definition in_int :: "int \<Rightarrow> bool" where
  "in_int i \<longleftrightarrow> - INT_MAX - 1 \<le> i \<and> i \<le> INT_MAX"

definition int_op :: "int \<Rightarrow> int res" where
  "int_op i = (if in_int i then Inr i else Inl (Undef ''signed overflow''))"

lemma int_op_ok [simp]: "in_int i \<Longrightarrow> int_op i = Inr i"
  by (simp add: int_op_def)

lemma in_int_bounds: "\<bar>i\<bar> \<le> INT_MAX \<Longrightarrow> in_int i"
  by (auto simp: in_int_def)

subsection \<open>Sums over finitely many processes\<close>

text \<open>Changing one summand changes the sum by the difference.\<close>

lemma sum_upd_nat:
  fixes f g :: "nat \<Rightarrow> nat"
  assumes "i < n" and "\<And>k. k \<noteq> i \<Longrightarrow> g k = f k"
  shows "(\<Sum>k<n. g k) + f i = (\<Sum>k<n. f k) + g i"
proof -
  have i: "i \<in> {..<n}" using assms(1) by simp
  have "(\<Sum>k\<in>{..<n} - {i}. g k) = (\<Sum>k\<in>{..<n} - {i}. f k)"
    using assms(2) by (intro sum.cong) auto
  then show ?thesis
    by (simp add: sum.remove [OF _ i, of f] sum.remove [OF _ i, of g])
qed

lemma sum_upd_less:
  fixes f g :: "nat \<Rightarrow> nat"
  assumes "i < n" and "\<And>k. k \<noteq> i \<Longrightarrow> g k = f k" and "g i < f i"
  shows "(\<Sum>k<n. g k) < (\<Sum>k<n. f k)"
  using sum_upd_nat [of i n g f, OF assms(1,2)] assms(3) by linarith

end
