(* ===== verification/Interleave.thy ===== *)
theory Interleave
  imports Prelude
begin

text \<open>
  Processes that run at the same time. A program with several processes is a state and a
  function \<open>nxt\<close> from an action (which process moves, and what the environment answers it) and
  a state to the next state; \<open>None\<close> means that the action is not possible: the process is
  blocked in a system call or has exited. A schedule is a list of actions. The locales state
  what an invariant and a termination measure of such a system give for every schedule.
\<close>

fun run :: "('a \<Rightarrow> 's \<Rightarrow> 's option) \<Rightarrow> 'a list \<Rightarrow> 's \<Rightarrow> 's option" where
  "run nxt [] s = Some s"
| "run nxt (a # as) s = (case nxt a s of None \<Rightarrow> None | Some t \<Rightarrow> run nxt as t)"

text \<open>A state is stuck when no action at all is possible.\<close>

definition stuck :: "('a \<Rightarrow> 's \<Rightarrow> 's option) \<Rightarrow> 's \<Rightarrow> bool" where
  "stuck nxt s \<longleftrightarrow> (\<forall>a. nxt a s = None)"

text \<open>The same system as a step relation, with its reachable states.\<close>

inductive steps_to :: "('a \<Rightarrow> 's \<Rightarrow> 's option) \<Rightarrow> 's \<Rightarrow> 's \<Rightarrow> bool" for nxt where
  here: "steps_to nxt s s"
| move: "steps_to nxt s t \<Longrightarrow> nxt a t = Some u \<Longrightarrow> steps_to nxt s u"

lemma run_append:
  "run nxt (as @ bs) s = (case run nxt as s of None \<Rightarrow> None | Some t \<Rightarrow> run nxt bs t)"
  by (induction as arbitrary: s) (auto split: option.splits)

lemma run_snoc:
  "run nxt (as @ [a]) s = (case run nxt as s of None \<Rightarrow> None | Some t \<Rightarrow> nxt a t)"
  by (simp add: run_append split: option.splits)

lemma steps_to_run: "steps_to nxt s t \<longleftrightarrow> (\<exists>as. run nxt as s = Some t)"
proof
  assume "steps_to nxt s t"
  then show "\<exists>as. run nxt as s = Some t"
  proof (induction rule: steps_to.induct)
    case (here s)
    have "run nxt [] s = Some s" by simp
    then show ?case ..
  next
    case (move s t a u)
    then obtain as where "run nxt as s = Some t" by blast
    with move.hyps(2) have "run nxt (as @ [a]) s = Some u" by (simp add: run_snoc)
    then show ?case ..
  qed
next
  assume "\<exists>as. run nxt as s = Some t"
  then obtain as where "run nxt as s = Some t" ..
  then show "steps_to nxt s t"
  proof (induction as arbitrary: t rule: rev_induct)
    case Nil
    then show ?case by (simp add: steps_to.here)
  next
    case (snoc a as)
    from snoc.prems obtain u where "run nxt as s = Some u" and "nxt a u = Some t"
      by (auto simp: run_snoc split: option.splits)
    with snoc.IH show ?case by (blast intro: steps_to.move)
  qed
qed

lemma run_prefix: "run nxt (as @ bs) s = Some u \<Longrightarrow> \<exists>t. run nxt as s = Some t"
  by (auto simp: run_append split: option.splits)

text \<open>Restricting the environment to a set of actions.\<close>

definition only :: "('a \<Rightarrow> bool) \<Rightarrow> ('a \<Rightarrow> 's \<Rightarrow> 's option) \<Rightarrow> 'a \<Rightarrow> 's \<Rightarrow> 's option" where
  "only ok nxt a s = (if ok a then nxt a s else None)"

lemma run_only: "\<forall>a \<in> set as. ok a \<Longrightarrow> run (only ok nxt) as s = run nxt as s"
  by (induction as arbitrary: s) (auto simp: only_def split: option.splits)

lemma run_only_ok: "run (only ok nxt) as s = Some t \<Longrightarrow> \<forall>a \<in> set as. ok a"
  by (induction as arbitrary: s) (auto simp: only_def split: if_splits option.splits)

lemma run_only_list: "run (only ok nxt) (as @ bs) s = Some t \<Longrightarrow> list_all ok bs"
  using run_only_ok [of ok nxt "as @ bs"] by (simp add: list_all_iff)

lemma run_only_run: "run (only ok nxt) as s = Some t \<Longrightarrow> run nxt as s = Some t"
  using run_only run_only_ok by metis

subsection \<open>Invariants\<close>

locale invariant_system =
  fixes nxt :: "'a \<Rightarrow> 's \<Rightarrow> 's option"
    and init :: 's
    and inv :: "'s \<Rightarrow> bool"
  assumes inv_init: "inv init"
    and inv_step: "inv s \<Longrightarrow> nxt a s = Some t \<Longrightarrow> inv t"
begin

lemma inv_run: "inv s \<Longrightarrow> run nxt as s = Some t \<Longrightarrow> inv t"
  by (induction as arbitrary: s) (auto split: option.splits dest: inv_step)

lemma inv_reached: "run nxt as init = Some t \<Longrightarrow> inv t"
  using inv_run inv_init by blast

lemma inv_steps_to: "steps_to nxt init t \<Longrightarrow> inv t"
  by (auto simp: steps_to_run dest: inv_reached)

end

subsection \<open>Termination without deadlock\<close>

text \<open>
  A system whose steps decrease a measure and whose states that are not final always allow some
  action ends, under every scheduler, in a final state: no schedule is longer than the measure
  of the start, only final states are stuck, and every schedule extends to a final state.
\<close>

locale terminating_system = invariant_system nxt init inv
  for nxt :: "'a \<Rightarrow> 's \<Rightarrow> 's option" and init :: 's and inv :: "'s \<Rightarrow> bool" +
  fixes msr :: "'s \<Rightarrow> nat"
    and final :: "'s \<Rightarrow> bool"
  assumes decreases: "inv s \<Longrightarrow> nxt a s = Some t \<Longrightarrow> msr t < msr s"
    and progress: "inv s \<Longrightarrow> \<not> final s \<Longrightarrow> \<exists>a t. nxt a s = Some t"
begin

lemma run_length: "inv s \<Longrightarrow> run nxt as s = Some t \<Longrightarrow> length as + msr t \<le> msr s"
proof (induction as arbitrary: s)
  case Nil
  then show ?case by simp
next
  case (Cons a as)
  from Cons.prems(2) obtain u where u: "nxt a s = Some u" and r: "run nxt as u = Some t"
    by (auto split: option.splits)
  have "length as + msr t \<le> msr u"
    using Cons.IH [OF inv_step [OF Cons.prems(1) u] r] .
  with decreases [OF Cons.prems(1) u] show ?case by simp
qed

lemma bounded: "run nxt as init = Some t \<Longrightarrow> length as \<le> msr init"
  using run_length [OF inv_init] by fastforce

lemma stuck_final: "run nxt as init = Some t \<Longrightarrow> stuck nxt t \<Longrightarrow> final t"
  using progress [OF inv_reached] by (fastforce simp: stuck_def)

lemma completes_from: "inv s \<Longrightarrow> \<exists>bs t. run nxt bs s = Some t \<and> final t"
proof (induction "msr s" arbitrary: s rule: less_induct)
  case less
  show ?case
  proof (cases "final s")
    case True
    have "run nxt [] s = Some s" by simp
    with True show ?thesis by blast
  next
    case False
    then obtain a t where t: "nxt a s = Some t" using progress less.prems by blast
    with less.prems have "inv t" and "msr t < msr s"
      by (auto intro: inv_step decreases)
    then obtain bs u where u: "run nxt bs t = Some u" "final u"
      using less.hyps by blast
    then have "run nxt (a # bs) s = Some u" using t by simp
    with u(2) show ?thesis by blast
  qed
qed

lemma completes: "run nxt as init = Some s \<Longrightarrow> \<exists>bs t. run nxt (as @ bs) init = Some t \<and> final t"
  using completes_from [OF inv_reached] by (fastforce simp: run_append)

end

subsection \<open>Exploration of small systems\<close>

text \<open>
  A system with finitely many actions and bounded runs can be explored level by level; a predicate
  that holds of all states found holds in every state of every run.
\<close>

definition successors :: "('a \<Rightarrow> 's \<Rightarrow> 's option) \<Rightarrow> 'a list \<Rightarrow> 's list \<Rightarrow> 's list" where
  "successors nxt acts ss = remdups (concat (map (\<lambda>s. List.map_filter (\<lambda>a. nxt a s) acts) ss))"

text \<open>The predicate is checked on all levels, and no state is left after \<open>n\<close> of them.\<close>

fun explore :: "('a \<Rightarrow> 's \<Rightarrow> 's option) \<Rightarrow> 'a list \<Rightarrow> ('s \<Rightarrow> bool) \<Rightarrow> nat \<Rightarrow> 's list \<Rightarrow> bool" where
  "explore nxt acts P 0 ss \<longleftrightarrow> ss = []"
| "explore nxt acts P (Suc n) ss \<longleftrightarrow>
     ss = [] \<or> list_all P ss \<and> explore nxt acts P n (successors nxt acts ss)"

definition idle :: "('a \<Rightarrow> 's \<Rightarrow> 's option) \<Rightarrow> 'a list \<Rightarrow> 's \<Rightarrow> bool" where
  "idle nxt acts s \<longleftrightarrow> list_all (\<lambda>a. case nxt a s of None \<Rightarrow> True | Some t \<Rightarrow> False) acts"

lemma set_successors: "set (successors nxt acts ss) = {t. \<exists>s \<in> set ss. \<exists>a \<in> set acts. nxt a s = Some t}"
proof -
  have "t \<in> set (List.map_filter (\<lambda>a. nxt a s) acts) \<longleftrightarrow> (\<exists>a \<in> set acts. nxt a s = Some t)" for s t
    by (induction acts) (auto simp: List.map_filter_simps split: option.splits)
  then show ?thesis by (auto simp: successors_def)
qed

lemma explore_run:
  "explore nxt acts P n ss \<Longrightarrow> s \<in> set ss \<Longrightarrow> run nxt as s = Some t \<Longrightarrow> set as \<subseteq> set acts \<Longrightarrow>
     P t \<and> length as < n"
proof (induction as arbitrary: n s ss)
  case Nil
  then show ?case by (cases n) (auto simp: list_all_iff)
next
  case (Cons a as)
  then obtain u where u: "nxt a s = Some u" "run nxt as u = Some t" by (auto split: option.splits)
  from Cons.prems(1,2) obtain m where m: "n = Suc m" "explore nxt acts P m (successors nxt acts ss)"
    by (cases n) auto
  have "u \<in> set (successors nxt acts ss)" using Cons.prems(2,4) u(1) by (auto simp: set_successors)
  then show ?case using Cons.IH [OF m(2) _ u(2)] Cons.prems(4) m(1) by auto
qed

lemma idle_iff: "idle nxt acts s \<longleftrightarrow> (\<forall>a \<in> set acts. nxt a s = None)"
  unfolding idle_def list_all_iff by (rule ball_cong) (simp_all split: option.split)

text \<open>An explored system: its actions are known, and what was checked holds everywhere.\<close>

locale explored_system =
  fixes nxt :: "'a \<Rightarrow> 's \<Rightarrow> 's option"
    and acts :: "'a list"
    and init :: 's
    and checked :: "'s \<Rightarrow> bool"
    and bound :: nat
  assumes all_acts: "a \<notin> set acts \<Longrightarrow> nxt a s = None"
    and explored: "explore nxt acts checked bound [init]"
begin

lemma run_acts: "run nxt as s = Some t \<Longrightarrow> set as \<subseteq> set acts"
proof (induction as arbitrary: s)
  case (Cons a as)
  then obtain u where "nxt a s = Some u" "run nxt as u = Some t" by (auto split: option.splits)
  moreover have "a \<in> set acts" using all_acts [of a s] \<open>nxt a s = Some u\<close> by (cases "a \<in> set acts") auto
  ultimately show ?case using Cons.IH by simp
qed simp

lemma checked_run: "run nxt as init = Some t \<Longrightarrow> checked t"
  using explore_run [OF explored, of init as t] run_acts [of as init t] by simp

lemma run_bound: "run nxt as init = Some t \<Longrightarrow> length as < bound"
  using explore_run [OF explored, of init as t] run_acts [of as init t] by simp

lemma stuck_idle: "stuck nxt s \<longleftrightarrow> idle nxt acts s"
  using all_acts unfolding stuck_def idle_iff by blast

text \<open>The same when some actions, such as failures, are left out.\<close>

lemma stuck_only: "stuck (only ok nxt) s \<longleftrightarrow> idle (only ok nxt) acts s"
proof -
  have "only ok nxt a s = None" if "a \<notin> set acts" for a
    using all_acts [OF that] by (simp add: only_def)
  then show ?thesis unfolding stuck_def idle_iff by blast
qed

text \<open>What an exploration from a later state has checked holds in the runs from there.\<close>

lemma explored_from: "explore nxt acts P n [s] \<Longrightarrow> run nxt as s = Some t \<Longrightarrow> P t"
  using explore_run [of nxt acts P n "[s]" s as t] run_acts [of as s t] by simp

text \<open>Every run can be continued until nothing more can move.\<close>

lemma run_to_idle: "run nxt as init = Some s \<Longrightarrow> \<exists>bs t. run nxt (as @ bs) init = Some t \<and> idle nxt acts t"
proof (induction "bound - length as" arbitrary: as s rule: less_induct)
  case less
  show ?case
  proof (cases "idle nxt acts s")
    case True
    then have "run nxt (as @ []) init = Some s \<and> idle nxt acts s" using less.prems by simp
    then show ?thesis by blast
  next
    case False
    then obtain a t where "nxt a s = Some t" unfolding idle_iff by auto
    then have r: "run nxt (as @ [a]) init = Some t" using less.prems by (simp add: run_snoc)
    have "bound - length (as @ [a]) < bound - length as" using run_bound [OF r] by simp
    from less.hyps [OF this r] show ?thesis by (metis append_assoc)
  qed
qed

end

subsection \<open>Systems with one run\<close>

text \<open>
  Processes that hand the control to each other: in the \<open>k\<close>-th state only the action \<open>who k\<close> is
  possible, up to a last state in which none is.
\<close>

locale linear_system =
  fixes nxt :: "'a \<Rightarrow> 's \<Rightarrow> 's option"
    and state :: "nat \<Rightarrow> 's"
    and who :: "nat \<Rightarrow> 'a"
    and last :: nat
  assumes chain: "k < last \<Longrightarrow> nxt a (state k) = (if a = who k then Some (state (Suc k)) else None)"
    and stops: "nxt a (state last) = None"
begin

lemma run_chain:
  "k \<le> last \<Longrightarrow> run nxt as (state k) = Some t \<Longrightarrow> k + length as \<le> last \<and> t = state (k + length as)"
proof (induction as arbitrary: k)
  case (Cons a as)
  show ?case
  proof (cases "k < last")
    case True
    then have "run nxt as (state (Suc k)) = Some t"
      using Cons.prems(2) chain [OF True, of a] by (auto split: if_splits)
    then show ?thesis using Cons.IH [of "Suc k"] True by simp
  next
    case False
    then show ?thesis using Cons.prems stops [of a] by simp
  qed
qed simp

lemma run_state: "run nxt as (state 0) = Some t \<Longrightarrow> length as \<le> last \<and> t = state (length as)"
  using run_chain [of 0 as t] by simp

lemma run_rest: "k \<le> n \<Longrightarrow> n \<le> last \<Longrightarrow> run nxt (map who [k..<n]) (state k) = Some (state n)"
proof (induction "n - k" arbitrary: k)
  case (Suc d)
  then have "run nxt (map who [Suc k..<n]) (state (Suc k)) = Some (state n)" by simp
  then show ?case using Suc.hyps(2) Suc.prems by (simp add: upt_conv_Cons chain)
qed simp

lemma run_ends:
  assumes "run nxt as (state 0) = Some t"
  shows "\<exists>bs. run nxt (as @ bs) (state 0) = Some (state last)"
proof -
  have t: "length as \<le> last" "t = state (length as)" using run_state [OF assms] by auto
  then have "run nxt (as @ map who [length as..<last]) (state 0) = Some (state last)"
    using run_rest [of "length as" last] assms by (simp add: run_append)
  then show ?thesis ..
qed

end

end
