(* ===== verification/Common.thy ===== *)
theory Common
  imports Interleave
begin

unbundle bit_operations_syntax

text \<open>
  The helper library of the programs, \<open>Common/common.c\<close>. A function that loops over a system
  call takes the list of the results the kernel gives to its successive calls; a list that ends
  while the function still waits for a result stands for a call that has not returned, and the
  value is then \<open>None\<close>.
\<close>

subsection \<open>Stopping with an error: die and die_errno\<close>

definition die :: "string \<Rightarrow> halt" where
  "die message = Exit 1 (''error: '' @ message @ [newline])"

definition die_errno :: "string \<Rightarrow> errno \<Rightarrow> halt" where
  "die_errno message e = Exit 1 (''error: '' @ message @ '': '' @ strerror e @ [newline])"

subsection \<open>Closing a descriptor: xclose\<close>

text \<open>
  \<open>close\<close> on a table of open descriptors: an unknown number fails with \<open>EBADF\<close>; otherwise the
  number is free afterwards, also when the kernel reports an error for the open file.
\<close>

type_synonym 'o fdtab = "int \<Rightarrow> 'o option"

definition close_fd :: "'o fdtab \<Rightarrow> int \<Rightarrow> errno option \<Rightarrow> errno option \<times> 'o fdtab" where
  "close_fd tab fd fault = (if tab fd = None then (Some EBADF, tab) else (fault, tab(fd := None)))"

definition xclose :: "'o fdtab \<Rightarrow> int \<Rightarrow> errno option \<Rightarrow> unit res \<times> 'o fdtab" where
  "xclose tab fd fault =
     (if 0 \<le> fd then
        (case close_fd tab fd fault of
           (Some e, tab') \<Rightarrow> (Inl (die_errno ''close'' e), tab')
         | (None, tab') \<Rightarrow> (Inr (), tab'))
      else (Inr (), tab))"

subsection \<open>Waiting for children: wait_for_pid and reap_all_children\<close>

datatype wait_res = WPid int | WErr errno

fun wait_for_pid :: "wait_res list \<Rightarrow> (unit res \<times> wait_res list) option" where
  "wait_for_pid [] = None"
| "wait_for_pid (WPid p # rs) = Some (Inr (), rs)"
| "wait_for_pid (WErr e # rs) =
     (if e \<noteq> EINTR then Some (Inl (die_errno ''waitpid'' e), rs) else wait_for_pid rs)"

text \<open>The loop of \<open>reap_all_children\<close> also gives the process numbers that \<open>wait\<close> returned.\<close>

fun reap_all_children :: "wait_res list \<Rightarrow> (int list \<times> wait_res list) option" where
  "reap_all_children [] = None"
| "reap_all_children (WPid p # rs) =
     (if 0 < p then map_option (\<lambda>(ps, rs'). (p # ps, rs')) (reap_all_children rs)
      else Some ([], rs))"
| "reap_all_children (WErr e # rs) = Some ([], rs)"

subsection \<open>Writing a whole buffer: write_all\<close>

text \<open>
  One call of \<open>write\<close>: the kernel fails it, or is willing to take up to \<open>m\<close> bytes and takes no
  more than were asked. The result of the loop is whether it left through its end, the bytes the
  descriptor received, and the results not yet used. \<open>remaining\<close> is a \<open>size_t\<close>.
\<close>

datatype write_res = Accept nat | Fail errno

type_synonym size_t = "64 word"

fun write_loop ::
    "write_res list \<Rightarrow> string \<Rightarrow> size_t \<Rightarrow> string \<Rightarrow> (bool \<times> string \<times> write_res list) option"
where
  "write_loop [] cursor remaining out =
     (if 0 < remaining then None else Some (True, out, []))"
| "write_loop (r # rs) cursor remaining out =
     (if 0 < remaining then
        (case r of
           Fail e \<Rightarrow>
             (if e = EINTR then write_loop rs cursor remaining out else Some (False, out, rs))
         | Accept m \<Rightarrow>
             (let n = min m (unat remaining)
              in write_loop rs (drop n cursor) (remaining - of_nat n) (out @ take n cursor)))
      else Some (True, out, r # rs))"

definition write_all ::
    "write_res list \<Rightarrow> string \<Rightarrow> size_t \<Rightarrow> (int \<times> string \<times> write_res list) option" where
  "write_all rs buffer len =
     map_option (\<lambda>(ok, out, rs'). (if ok then sint len else -1, out, rs'))
       (write_loop rs buffer len [])"

text \<open>
  The same for a socket: a \<open>write\<close> that would fail with \<open>EPIPE\<close>, because the other end is closed, raises \<open>SIGPIPE\<close>, which no
  program handles.
\<close>

definition write_all_socket ::
    "write_res list \<Rightarrow> string \<Rightarrow> size_t \<Rightarrow> (int \<times> string \<times> write_res list) res option" where
  "write_all_socket rs buffer len =
     (case write_all rs buffer len of
        None \<Rightarrow> None
      | Some (r, out, rs') \<Rightarrow>
          if r = -1 \<and> last (take (length rs - length rs') rs) = Fail EPIPE then Some (Inl (Killed ''SIGPIPE''))
          else Some (Inr (r, out, rs')))"

text \<open>
  One call of \<open>read\<close> for at most \<open>k\<close> bytes: the kernel fails it, or has some bytes for the
  descriptor, none of them meaning the end of the data.
\<close>

datatype read_res = Avail string | RdErr errno

fun sys_read :: "nat \<Rightarrow> read_res \<Rightarrow> int \<times> string" where
  "sys_read k (Avail bs) = (int (length (take k bs)), take k bs)"
| "sys_read k (RdErr e) = (-1, [])"

subsection \<open>File status flags: set_nonblock\<close>

text \<open>
  \<open>F_SETFL\<close> changes the status flags \<open>O_APPEND\<close>, \<open>O_NONBLOCK\<close>, \<open>O_ASYNC\<close>, \<open>O_DIRECT\<close> and
  \<open>O_NOATIME\<close> only; the access mode and the other bits stay (values of Linux on x86-64).
\<close>

definition O_NONBLOCK :: "32 word" where
  "O_NONBLOCK = 0x800"

definition SETFL_MASK :: "32 word" where
  "SETFL_MASK = 0x46C00"

definition fcntl_getfl :: "32 word fdtab \<Rightarrow> int \<Rightarrow> errno + 32 word" where
  "fcntl_getfl tab fd = (case tab fd of None \<Rightarrow> Inl EBADF | Some flags \<Rightarrow> Inr flags)"

definition fcntl_setfl ::
    "32 word fdtab \<Rightarrow> int \<Rightarrow> 32 word \<Rightarrow> errno option \<Rightarrow> int \<times> 32 word fdtab" where
  "fcntl_setfl tab fd v fault =
     (case (tab fd, fault) of
        (Some old, None) \<Rightarrow> (0, tab(fd \<mapsto> (old AND NOT SETFL_MASK) OR (v AND SETFL_MASK)))
      | _ \<Rightarrow> (-1, tab))"

definition set_nonblock ::
    "32 word fdtab \<Rightarrow> int \<Rightarrow> errno option \<Rightarrow> int \<times> 32 word fdtab" where
  "set_nonblock tab fd fault =
     (case fcntl_getfl tab fd of
        Inl e \<Rightarrow> (-1, tab)
      | Inr flags \<Rightarrow> fcntl_setfl tab fd (flags OR O_NONBLOCK) fault)"

subsection \<open>Lemmas\<close>

fun accepted :: "write_res \<Rightarrow> nat" where
  "accepted (Accept m) = m"
| "accepted (Fail e) = 0"

definition retryable :: "write_res \<Rightarrow> bool" where
  "retryable r \<longleftrightarrow> (\<forall>e. r = Fail e \<longrightarrow> e = EINTR)"

lemma unat_of_nat_size: "n < 2 ^ 64 \<Longrightarrow> unat (of_nat n :: size_t) = n"
  by (simp add: unsigned_of_nat take_bit_nat_eq_self)

lemma unat_minus_of_nat:
  fixes w :: size_t
  assumes "n \<le> unat w"
  shows "unat (w - of_nat n) = unat w - n"
proof -
  have "n < 2 ^ 64" using assms unsigned_less [of w, where 'a = nat] by simp
  then have n: "unat (of_nat n :: size_t) = n" by (rule unat_of_nat_size)
  then have "(of_nat n :: size_t) \<le> w" using assms by (simp add: word_le_nat_alt)
  then show ?thesis using n by (simp add: unat_sub)
qed

lemma unat_minus_min [simp]:
  fixes w :: size_t
  shows "unat (w - of_nat (min m (unat w))) = unat w - min m (unat w)"
  by (rule unat_minus_of_nat) simp

text \<open>Whatever the kernel answers, the bytes sent are a prefix of the rest of the buffer.\<close>

lemma write_loop_sound:
  "write_loop rs cur rem out = Some (ok, res, rs') \<Longrightarrow> unat rem \<le> length cur \<Longrightarrow>
   (\<exists>k. res = out @ take k cur \<and>
        (if ok then k = unat rem
         else k < unat rem \<and> (\<exists>e. e \<noteq> EINTR \<and> Fail e \<in> set rs)))"
proof (induction rs arbitrary: cur rem out)
  case Nil
  then show ?case by (auto simp: word_gt_0 split: if_splits)
next
  case (Cons r rs)
  show ?case
  proof (cases "0 < rem")
    case False
    with Cons.prems show ?thesis by (auto simp: word_gt_0)
  next
    case rem: True
    then have pos: "0 < unat rem" by (simp add: word_gt_0 unat_gt_0)
    show ?thesis
    proof (cases r)
      case (Fail e)
      with rem pos Cons show ?thesis
        by (auto split: if_splits intro: exI [of _ 0]) (metis append_Nil2)+
    next
      case (Accept m)
      let ?n = "min m (unat rem)"
      have le: "unat (rem - of_nat ?n) \<le> length (drop ?n cur)"
        using Cons.prems(2) by simp
      have "write_loop rs (drop ?n cur) (rem - of_nat ?n) (out @ take ?n cur) = Some (ok, res, rs')"
        using Cons.prems(1) rem Accept by (simp add: Let_def)
      from Cons.IH [OF this le] obtain k where
        k: "res = (out @ take ?n cur) @ take k (drop ?n cur)" and
        c: "if ok then k = unat rem - ?n
            else k < unat rem - ?n \<and> (\<exists>e. e \<noteq> EINTR \<and> Fail e \<in> set rs)"
        unfolding unat_minus_min by blast
      have "res = out @ take (?n + k) cur"
        using k by (simp add: take_add)
      moreover have "if ok then ?n + k = unat rem
          else ?n + k < unat rem \<and> (\<exists>e. e \<noteq> EINTR \<and> Fail e \<in> set (r # rs))"
        using c by (auto split: if_splits)
      ultimately show ?thesis by blast
    qed
  qed
qed

text \<open>Enough accepted bytes and no failure other than an interruption: the loop ends.\<close>

lemma write_loop_returns:
  "\<forall>r \<in> set rs. retryable r \<Longrightarrow> unat rem \<le> sum_list (map accepted rs) \<Longrightarrow>
   \<exists>res rs'. write_loop rs cur rem out = Some (True, res, rs')"
proof (induction rs arbitrary: cur rem out)
  case Nil
  then show ?case by (simp add: word_gt_0 unat_eq_zero)
next
  case (Cons r rs)
  show ?case
  proof (cases "0 < rem")
    case False
    then show ?thesis by simp
  next
    case rem: True
    show ?thesis
    proof (cases r)
      case (Fail e)
      with Cons.prems have "e = EINTR" and "unat rem \<le> sum_list (map accepted rs)"
        by (auto simp: retryable_def)
      with Cons rem Fail show ?thesis by simp
    next
      case (Accept m)
      have "unat (rem - of_nat (min m (unat rem))) \<le> sum_list (map accepted rs)"
        using Cons.prems(2) Accept by simp
      with Cons.IH Cons.prems(1) rem Accept show ?thesis
        by (simp add: Let_def)
    qed
  qed
qed

lemma write_all_sound:
  assumes "write_all rs buf len = Some (r, out, rs')" and "unat len \<le> length buf"
  shows "(r = sint len \<and> out = take (unat len) buf)
       \<or> (r = -1 \<and> (\<exists>k < unat len. out = take k buf) \<and> (\<exists>e. e \<noteq> EINTR \<and> Fail e \<in> set rs))"
proof -
  from assms(1) obtain ok where w: "write_loop rs buf len [] = Some (ok, out, rs')"
    and r: "r = (if ok then sint len else -1)"
    by (auto simp: write_all_def)
  from write_loop_sound [OF w assms(2)] r show ?thesis
    by (auto split: if_splits)
qed

lemma write_all_one_call:
  assumes "len \<noteq> 0" and "unat len \<le> m" and "unat len \<le> length buf"
  shows "write_all (Accept m # rs) buf len = Some (sint len, take (unat len) buf, rs)"
proof -
  have "write_loop rs (drop (unat len) buf) 0 (take (unat len) buf) =
      Some (True, take (unat len) buf, rs)"
    by (cases rs) simp_all
  then show ?thesis
    using assms by (simp add: write_all_def Let_def min_absorb2 word_gt_0)
qed

lemma write_all_returns:
  assumes "\<forall>r \<in> set rs. retryable r" and "unat len \<le> sum_list (map accepted rs)"
    and "unat len \<le> length buf"
  shows "\<exists>rs'. write_all rs buf len = Some (sint len, take (unat len) buf, rs')"
proof -
  from write_loop_returns [OF assms(1,2)] obtain res rs' where
    w: "write_loop rs buf len [] = Some (True, res, rs')" by blast
  then have "write_all rs buf len = Some (sint len, res, rs')" by (simp add: write_all_def)
  moreover from write_loop_sound [OF w assms(3)] have "res = take (unat len) buf" by simp
  ultimately show ?thesis by blast
qed

lemma write_all_socket_ok:
  "write_all rs buf len = Some (r, out, rs') \<Longrightarrow> r \<noteq> -1 \<Longrightarrow> write_all_socket rs buf len = Some (Inr (r, out, rs'))"
  by (simp add: write_all_socket_def)

lemma sint_len: "n < 2 ^ 63 \<Longrightarrow> sint (of_nat n :: size_t) = int n"
  by (simp add: sint_uint unsigned_of_nat take_bit_nat_eq_self uint_nat signed_take_bit_int_eq_self
      del: of_nat_unat)

lemma xclose_open:
  "0 \<le> fd \<Longrightarrow> tab fd \<noteq> None \<Longrightarrow> xclose tab fd None = (Inr (), tab(fd := None))"
  by (simp add: xclose_def close_fd_def)

lemma wait_for_pid_interrupted:
  "wait_for_pid (replicate k (WErr EINTR) @ rs) = wait_for_pid rs"
  by (induction k) auto

subsection \<open>Properties\<close>

text \<open>
  C39: Whatever the kernel answers, \<open>write_all\<close> returns the length exactly when all bytes of the buffer
  have been written, once and in order; otherwise it returns -1, an error other than an interruption has occurred, and what was
  written is a proper prefix. Partial writes and interruptions are retried: when no other
  error occurs and the kernel accepts enough bytes in all, the call does return with everything written.
\<close>

theorem write_all_exact:
  assumes "unat len \<le> length buf" and "unat len < 2 ^ 63"
  shows "(case write_all rs buf len of
       Some (r, out, rest) \<Rightarrow>
         if r = -1 then (\<exists>k < unat len. out = take k buf) \<and> (\<exists>e. e \<noteq> EINTR \<and> Fail e \<in> set rs)
         else r = int (unat len) \<and> out = take (unat len) buf
     | None \<Rightarrow> \<not> (list_all retryable rs \<and> unat len \<le> sum_list (map accepted rs)))
    \<and> (list_all retryable rs \<and> unat len \<le> sum_list (map accepted rs) \<longrightarrow>
         (\<exists>rest. write_all rs buf len = Some (int (unat len), take (unat len) buf, rest)))"
proof -
  have len: "sint len = int (unat len)"
    using assms(2) by (simp add: sint_uint uint_nat signed_take_bit_int_eq_self del: of_nat_unat)
  have sound: "if r = -1 then (\<exists>k < unat len. out = take k buf) \<and> (\<exists>e. e \<noteq> EINTR \<and> Fail e \<in> set rs)
      else r = int (unat len) \<and> out = take (unat len) buf" if "write_all rs buf len = Some (r, out, rest)" for r out rest
  proof -
    have "int (unat len) \<noteq> - 1" by linarith
    then show ?thesis using write_all_sound [OF that assms(1)] unfolding len by auto
  qed
  have returns: "\<exists>rest. write_all rs buf len = Some (int (unat len), take (unat len) buf, rest)"
    if "list_all retryable rs \<and> unat len \<le> sum_list (map accepted rs)"
    using write_all_returns [of rs len buf] that assms(1) len by (auto simp: list_all_iff)
  show ?thesis using sound returns by (auto split: option.split)
qed

theorem write_all_exact_witness:
  "\<exists>rest. write_all [Fail EINTR, Accept 2, Accept 0, Accept 9] ''hello'' 5 = Some (5, ''hello'', rest)"
  using write_all_exact [of 5 "''hello''" "[Fail EINTR, Accept 2, Accept 0, Accept 9]"]
  by (simp add: retryable_def)

text \<open>\<open>set_nonblock\<close> sets one bit of the flags of one descriptor and leaves everything else.\<close>

lemma set_nonblock_bit:
  assumes "tab fd = Some flags"
  shows "set_nonblock tab fd None = (0, tab(fd \<mapsto> flags OR O_NONBLOCK))"
proof -
  have "(flags AND NOT SETFL_MASK) OR ((flags OR O_NONBLOCK) AND SETFL_MASK) = flags OR O_NONBLOCK"
  proof (rule bit_word_eqI)
    fix n
    have "O_NONBLOCK AND SETFL_MASK = O_NONBLOCK" by (simp add: O_NONBLOCK_def SETFL_MASK_def)
    then have "bit O_NONBLOCK n \<Longrightarrow> bit SETFL_MASK n" by (metis bit_and_iff)
    then show "n < LENGTH(32) \<Longrightarrow> bit ((flags AND NOT SETFL_MASK) OR ((flags OR O_NONBLOCK) AND SETFL_MASK)) n
        = bit (flags OR O_NONBLOCK) n"
      by (auto simp: bit_simps)
  qed
  then show ?thesis by (simp add: set_nonblock_def fcntl_getfl_def fcntl_setfl_def assms)
qed

end
