(* ===== verification/CalcParser.thy ===== *)
theory CalcParser
  imports Common "HOL-Library.Sublist"
begin

text \<open>
  The recursive-descent evaluator of \<open>Sockets/unix_calc_server.c\<close>: \<open>skip_spaces\<close>,
  \<open>parse_factor\<close>, \<open>parse_term\<close>, \<open>parse_expression\<close> and \<open>evaluate\<close>. The global pointer
  \<open>expr\<close> is the string of the characters before the terminating NUL that are still unread; it is
  an argument and a result of every function. The type \<open>double\<close> with its operations and the
  library function \<open>strtod\<close> are a record of parameters, so every theorem holds for the IEEE
  operations of the machine. A call of the parsers spends one unit of fuel; \<open>None\<close> means that
  the fuel is gone, and \<open>evaluate\<close> gets an amount that is proved to be enough.
\<close>

subsection \<open>Arithmetic parameters\<close>

record 'd arith =
  d_neg :: "'d \<Rightarrow> 'd"
  d_add :: "'d \<Rightarrow> 'd \<Rightarrow> 'd"
  d_sub :: "'d \<Rightarrow> 'd \<Rightarrow> 'd"
  d_mul :: "'d \<Rightarrow> 'd \<Rightarrow> 'd"
  d_div :: "'d \<Rightarrow> 'd \<Rightarrow> 'd"
  d_strtod :: "string \<Rightarrow> 'd \<times> nat \<times> bool" \<comment> \<open>value, characters used, errno is ERANGE\<close>
  d_fmt3 :: "'d \<Rightarrow> string" \<comment> \<open>the conversion \<open>%.3f\<close>\<close>

type_synonym 'a parsed = "('a \<times> string) res option"

definition pbind :: "'a res option \<Rightarrow> ('a \<Rightarrow> 'b res option) \<Rightarrow> 'b res option" where
  "pbind m k = (case m of None \<Rightarrow> None | Some (Inl h) \<Rightarrow> Some (Inl h) | Some (Inr x) \<Rightarrow> k x)"

subsection \<open>The evaluator\<close>

fun skip_spaces :: "string \<Rightarrow> string" where
  "skip_spaces [] = []"
| "skip_spaces (c # cs) = (if isspace c then skip_spaces cs else c # cs)"

text \<open>
  The loops of \<open>parse_term\<close> and \<open>parse_expression\<close> are \<open>term_loop\<close> and \<open>expression_loop\<close>, with the
  variable \<open>value\<close> as an argument.
\<close>

fun parse_factor :: "'d arith \<Rightarrow> nat \<Rightarrow> string \<Rightarrow> 'd parsed"
  and parse_term :: "'d arith \<Rightarrow> nat \<Rightarrow> string \<Rightarrow> 'd parsed"
  and term_loop :: "'d arith \<Rightarrow> nat \<Rightarrow> 'd \<Rightarrow> string \<Rightarrow> 'd parsed"
  and parse_expression :: "'d arith \<Rightarrow> nat \<Rightarrow> string \<Rightarrow> 'd parsed"
  and expression_loop :: "'d arith \<Rightarrow> nat \<Rightarrow> 'd \<Rightarrow> string \<Rightarrow> 'd parsed"
where
  "parse_factor A 0 s = None"
| "parse_factor A (Suc f) s =
     (let s = skip_spaces s in
      if peek s = CHR ''('' then
        pbind (parse_expression A f (tl s))
          (\<lambda>(v, r). let r = skip_spaces r in
             if peek r \<noteq> CHR '')'' then Some (Inl (die ''missing parenthesis''))
             else Some (Inr (v, tl r)))
      else if peek s = CHR ''-'' then
        pbind (parse_factor A f (tl s)) (\<lambda>(v, r). Some (Inr (d_neg A v, r)))
      else
        (case d_strtod A s of (v, n, erange) \<Rightarrow>
           if n = 0 \<or> erange then Some (Inl (die ''invalid numeric token''))
           else Some (Inr (v, drop n s))))"
| "parse_term A 0 s = None"
| "parse_term A (Suc f) s = pbind (parse_factor A f s) (\<lambda>(v, r). term_loop A f v r)"
| "term_loop A 0 v s = None"
| "term_loop A (Suc f) v s =
     (let s = skip_spaces s; op = peek s in
      if op \<noteq> CHR ''*'' \<and> op \<noteq> CHR ''/'' then Some (Inr (v, s))
      else
        pbind (parse_factor A f (tl s))
          (\<lambda>(rhs, r). term_loop A f (if op = CHR ''*'' then d_mul A v rhs else d_div A v rhs) r))"
| "parse_expression A 0 s = None"
| "parse_expression A (Suc f) s = pbind (parse_term A f s) (\<lambda>(v, r). expression_loop A f v r)"
| "expression_loop A 0 v s = None"
| "expression_loop A (Suc f) v s =
     (let s = skip_spaces s; op = peek s in
      if op \<noteq> CHR ''+'' \<and> op \<noteq> CHR ''-'' then Some (Inr (v, s))
      else
        pbind (parse_term A f (tl s))
          (\<lambda>(rhs, r). expression_loop A f
             (if op = CHR ''+'' then d_add A v rhs else d_sub A v rhs) r))"

definition parse_fuel :: "string \<Rightarrow> nat" where
  "parse_fuel s = 3 * length s + 3"

definition evaluate :: "'d arith \<Rightarrow> string \<Rightarrow> 'd res option" where
  "evaluate A input =
     pbind (parse_expression A (parse_fuel input) input)
       (\<lambda>(v, r). let r = skip_spaces r in
          if peek r \<noteq> CHR 0x00 \<and> peek r \<noteq> CHR 0x0A
          then Some (Inl (die ''unexpected trailing token''))
          else Some (Inr v))"

subsection \<open>Blanks and the bind\<close>

lemma skip_spaces_dropWhile: "skip_spaces s = dropWhile isspace s"
  by (induction s) auto

lemma length_skip_spaces: "length (skip_spaces s) \<le> length s"
  by (induction s) auto

lemma skip_spaces_idem [simp]: "skip_spaces (skip_spaces s) = skip_spaces s"
  by (induction s) auto

lemma not_isspace_peek [simp]: "\<not> isspace (peek (skip_spaces s))"
  by (induction s) auto

lemma skip_spaces_nonspace [simp]: "\<not> isspace (peek s) \<Longrightarrow> skip_spaces s = s"
  by (cases s) auto

lemma skip_spaces_split: "\<exists>w. s = w @ skip_spaces s \<and> list_all isspace w"
proof (induction s)
  case Nil
  then show ?case by simp
next
  case (Cons c s)
  then obtain w where "s = w @ skip_spaces s" "list_all isspace w" by blast
  then show ?case
    by (cases "isspace c") (auto intro: exI [of _ "c # w"])
qed

lemma peek_Cons: "peek s = c \<Longrightarrow> c \<noteq> CHR 0x00 \<Longrightarrow> s = c # tl s"
  by (cases s) auto

lemma pbind_simps [simp]:
  "pbind None k = None"
  "pbind (Some (Inl h)) k = Some (Inl h)"
  "pbind (Some (Inr x)) k = k x"
  by (simp_all add: pbind_def)

lemma pbind_Some_Inr:
  "pbind m k = Some (Inr y) \<longleftrightarrow> (\<exists>x. m = Some (Inr x) \<and> k x = Some (Inr y))"
  by (auto simp: pbind_def split: option.splits sum.splits)

lemma pbind_None: "pbind m k = None \<longleftrightarrow> m = None \<or> (\<exists>x. m = Some (Inr x) \<and> k x = None)"
  by (auto simp: pbind_def split: option.splits sum.splits)

lemma pbind_mono:
  assumes "\<And>x. m = Some x \<Longrightarrow> m' = Some x" and "\<And>x y. k x = Some y \<Longrightarrow> k' x = Some y"
    and "pbind m k = Some y"
  shows "pbind m' k' = Some y"
  using assms by (cases m) (auto simp: pbind_def split: sum.splits)

subsection \<open>More fuel never changes a result\<close>

lemma parse_mono:
  "(parse_factor A f s = Some x \<longrightarrow> parse_factor A (Suc f) s = Some x)
   \<and> (parse_term A f s = Some x \<longrightarrow> parse_term A (Suc f) s = Some x)
   \<and> (term_loop A f v s = Some x \<longrightarrow> term_loop A (Suc f) v s = Some x)
   \<and> (parse_expression A f s = Some x \<longrightarrow> parse_expression A (Suc f) s = Some x)
   \<and> (expression_loop A f v s = Some x \<longrightarrow> expression_loop A (Suc f) v s = Some x)"
proof (induction f arbitrary: s v x)
  case 0
  show ?case by simp
next
  case (Suc f)
  have F: "\<And>s x. parse_factor A f s = Some x \<Longrightarrow> parse_factor A (Suc f) s = Some x"
    and T: "\<And>s x. parse_term A f s = Some x \<Longrightarrow> parse_term A (Suc f) s = Some x"
    and TL: "\<And>v s x. term_loop A f v s = Some x \<Longrightarrow> term_loop A (Suc f) v s = Some x"
    and E: "\<And>s x. parse_expression A f s = Some x \<Longrightarrow> parse_expression A (Suc f) s = Some x"
    and EL: "\<And>v s x. expression_loop A f v s = Some x \<Longrightarrow> expression_loop A (Suc f) v s = Some x"
    using Suc.IH by blast+
  have f: "parse_factor A (Suc f) s = Some x \<Longrightarrow> parse_factor A (Suc (Suc f)) s = Some x"
    unfolding parse_factor.simps(2) [of A "Suc f" s] parse_factor.simps(2) [of A f s] Let_def
    by (auto simp del: parse_factor.simps parse_expression.simps
        split: if_splits prod.splits elim!: pbind_mono [rotated 2] dest: F E)
  have t: "parse_term A (Suc f) s = Some x \<Longrightarrow> parse_term A (Suc (Suc f)) s = Some x"
    unfolding parse_term.simps(2) [of A "Suc f" s] parse_term.simps(2) [of A f s]
    by (auto simp del: parse_factor.simps term_loop.simps
        elim!: pbind_mono [rotated 2] dest: F TL)
  have tl: "term_loop A (Suc f) v s = Some x \<Longrightarrow> term_loop A (Suc (Suc f)) v s = Some x"
    unfolding term_loop.simps(2) [of A "Suc f" v s] term_loop.simps(2) [of A f v s] Let_def
    by (auto simp del: parse_factor.simps term_loop.simps
        split: if_splits elim!: pbind_mono [rotated 2] dest: F TL)
  have e: "parse_expression A (Suc f) s = Some x \<Longrightarrow> parse_expression A (Suc (Suc f)) s = Some x"
    unfolding parse_expression.simps(2) [of A "Suc f" s] parse_expression.simps(2) [of A f s]
    by (auto simp del: parse_term.simps expression_loop.simps
        elim!: pbind_mono [rotated 2] dest: T EL)
  have el: "expression_loop A (Suc f) v s = Some x \<Longrightarrow>
      expression_loop A (Suc (Suc f)) v s = Some x"
    unfolding expression_loop.simps(2) [of A "Suc f" v s] expression_loop.simps(2) [of A f v s] Let_def
    by (auto simp del: parse_term.simps expression_loop.simps
        split: if_splits elim!: pbind_mono [rotated 2] dest: T EL)
  show ?case by (intro conjI impI) (fact f t tl e el)+
qed

lemmas parse_Suc =
  parse_mono [THEN conjunct1, THEN mp]
  parse_mono [THEN conjunct2, THEN conjunct1, THEN mp]
  parse_mono [THEN conjunct2, THEN conjunct2, THEN conjunct1, THEN mp]
  parse_mono [THEN conjunct2, THEN conjunct2, THEN conjunct2, THEN conjunct1, THEN mp]
  parse_mono [THEN conjunct2, THEN conjunct2, THEN conjunct2, THEN conjunct2, THEN mp]

lemma parse_mono_le:
  assumes "f \<le> f'"
  shows "parse_factor A f s = Some x \<Longrightarrow> parse_factor A f' s = Some x"
    and "parse_term A f s = Some x \<Longrightarrow> parse_term A f' s = Some x"
    and "term_loop A f v s = Some x \<Longrightarrow> term_loop A f' v s = Some x"
    and "parse_expression A f s = Some x \<Longrightarrow> parse_expression A f' s = Some x"
    and "expression_loop A f v s = Some x \<Longrightarrow> expression_loop A f' v s = Some x"
  using assms by (induction f' rule: dec_induct) (assumption | (rule parse_Suc, blast))+

subsection \<open>The rest is never longer, and the fuel is enough\<close>

lemma tl_skip_spaces_shorter:
  "peek (skip_spaces s) = c \<Longrightarrow> c \<noteq> CHR 0x00 \<Longrightarrow> length (tl (skip_spaces s)) < length s"
  using length_skip_spaces [of s] peek_Cons [of "skip_spaces s" c]
  by (metis Suc_le_lessD length_Cons less_le_trans lessI)

lemma parse_length:
  "(parse_factor A f s = Some (Inr (w, r)) \<longrightarrow> length r \<le> length s)
   \<and> (parse_term A f s = Some (Inr (w, r)) \<longrightarrow> length r \<le> length s)
   \<and> (term_loop A f v s = Some (Inr (w, r)) \<longrightarrow> length r \<le> length s)
   \<and> (parse_expression A f s = Some (Inr (w, r)) \<longrightarrow> length r \<le> length s)
   \<and> (expression_loop A f v s = Some (Inr (w, r)) \<longrightarrow> length r \<le> length s)"
proof (induction f arbitrary: s v w r)
  case 0
  show ?case by simp
next
  case (Suc f)
  have F: "\<And>s w r. parse_factor A f s = Some (Inr (w, r)) \<Longrightarrow> length r \<le> length s"
    and T: "\<And>s w r. parse_term A f s = Some (Inr (w, r)) \<Longrightarrow> length r \<le> length s"
    and TL: "\<And>v s w r. term_loop A f v s = Some (Inr (w, r)) \<Longrightarrow> length r \<le> length s"
    and E: "\<And>s w r. parse_expression A f s = Some (Inr (w, r)) \<Longrightarrow> length r \<le> length s"
    and EL: "\<And>v s w r. expression_loop A f v s = Some (Inr (w, r)) \<Longrightarrow> length r \<le> length s"
    using Suc.IH by blast+
  note sk = length_skip_spaces [of s]
  have f: "parse_factor A (Suc f) s = Some (Inr (w, r)) \<Longrightarrow> length r \<le> length s"
  proof -
    assume *: "parse_factor A (Suc f) s = Some (Inr (w, r))"
    show ?thesis
    proof (cases "peek (skip_spaces s) = CHR ''(''")
      case True
      with * obtain b where "parse_expression A f (tl (skip_spaces s)) = Some (Inr (w, b))"
          "r = tl (skip_spaces b)"
        by (auto simp: Let_def pbind_Some_Inr split: if_splits)
      with E [of "tl (skip_spaces s)" w b] sk length_skip_spaces [of b] show ?thesis by simp
    next
      case False
      with * sk show ?thesis
        by (auto simp: Let_def pbind_Some_Inr split: if_splits prod.splits dest!: F)
    qed
  qed
  have t: "parse_term A (Suc f) s = Some (Inr (w, r)) \<Longrightarrow> length r \<le> length s"
    by (auto simp: pbind_Some_Inr dest!: F TL)
  have tl: "term_loop A (Suc f) v s = Some (Inr (w, r)) \<Longrightarrow> length r \<le> length s"
    by (auto simp: Let_def pbind_Some_Inr split: if_splits dest!: F TL)
      (use sk in linarith)+
  have e: "parse_expression A (Suc f) s = Some (Inr (w, r)) \<Longrightarrow> length r \<le> length s"
    by (auto simp: pbind_Some_Inr dest!: T EL)
  have el: "expression_loop A (Suc f) v s = Some (Inr (w, r)) \<Longrightarrow> length r \<le> length s"
    by (auto simp: Let_def pbind_Some_Inr split: if_splits dest!: T EL)
      (use sk in linarith)+
  show ?case by (intro conjI impI) (fact f t tl e el)+
qed

lemmas parse_shorter =
  parse_length [THEN conjunct1, THEN mp]
  parse_length [THEN conjunct2, THEN conjunct1, THEN mp]

lemma parse_enough:
  "(3 * length s + 1 \<le> f \<longrightarrow> parse_factor A f s \<noteq> None)
   \<and> (3 * length s + 2 \<le> f \<longrightarrow> parse_term A f s \<noteq> None)
   \<and> (3 * length s + 1 \<le> f \<longrightarrow> term_loop A f v s \<noteq> None)
   \<and> (3 * length s + 3 \<le> f \<longrightarrow> parse_expression A f s \<noteq> None)
   \<and> (3 * length s + 1 \<le> f \<longrightarrow> expression_loop A f v s \<noteq> None)"
proof (induction f arbitrary: s v)
  case 0
  show ?case by simp
next
  case (Suc f)
  have F: "\<And>s. 3 * length s + 1 \<le> f \<Longrightarrow> parse_factor A f s \<noteq> None"
    and T: "\<And>s. 3 * length s + 2 \<le> f \<Longrightarrow> parse_term A f s \<noteq> None"
    and TL: "\<And>v s. 3 * length s + 1 \<le> f \<Longrightarrow> term_loop A f v s \<noteq> None"
    and E: "\<And>s. 3 * length s + 3 \<le> f \<Longrightarrow> parse_expression A f s \<noteq> None"
    and EL: "\<And>v s. 3 * length s + 1 \<le> f \<Longrightarrow> expression_loop A f v s \<noteq> None"
    using Suc.IH by blast+
  have short: "length (tl (skip_spaces s)) < length s"
    if "peek (skip_spaces s) = c" "c \<noteq> CHR 0x00" for c
    using tl_skip_spaces_shorter that .
  have "parse_factor A (Suc f) s \<noteq> None" if "3 * length s + 1 \<le> Suc f"
    using that short [of "CHR ''(''"] short [of "CHR ''-''"] E [of "tl (skip_spaces s)"]
      F [of "tl (skip_spaces s)"]
    by (auto simp: Let_def pbind_None simp del: not_None_eq split: prod.splits if_splits)
  moreover have "parse_term A (Suc f) s \<noteq> None" if "3 * length s + 2 \<le> Suc f"
  proof -
    have "parse_factor A f s \<noteq> None" using F that by simp
    moreover have "term_loop A f v r \<noteq> None" if "parse_factor A f s = Some (Inr (v, r))" for v r
      using TL [of r v] that \<open>3 * length s + 2 \<le> Suc f\<close> parse_shorter [of A f s v r] by simp
    ultimately show ?thesis by (auto simp: pbind_None simp del: not_None_eq)
  qed
  moreover have "term_loop A (Suc f) v s \<noteq> None" if le: "3 * length s + 1 \<le> Suc f"
  proof (cases "peek (skip_spaces s) = CHR ''*'' \<or> peek (skip_spaces s) = CHR ''/''")
    case False
    then show ?thesis by (simp add: Let_def)
  next
    case True
    then have sh: "length (tl (skip_spaces s)) < length s"
      using short by fastforce
    have "parse_factor A f (tl (skip_spaces s)) \<noteq> None"
      using F sh le by simp
    moreover have "term_loop A f w r \<noteq> None"
      if "parse_factor A f (tl (skip_spaces s)) = Some (Inr (x, r))" for w x r
      using TL [of r w] that le sh parse_shorter [of A f "tl (skip_spaces s)" x r] by simp
    ultimately show ?thesis using True by (auto simp: Let_def pbind_None simp del: not_None_eq)
  qed
  moreover have "parse_expression A (Suc f) s \<noteq> None" if "3 * length s + 3 \<le> Suc f"
  proof -
    have "parse_term A f s \<noteq> None" using T that by simp
    moreover have "expression_loop A f v r \<noteq> None"
      if "parse_term A f s = Some (Inr (v, r))" for v r
      using EL [of r v] that \<open>3 * length s + 3 \<le> Suc f\<close> parse_shorter [of A f s v r] by simp
    ultimately show ?thesis by (auto simp: pbind_None simp del: not_None_eq)
  qed
  moreover have "expression_loop A (Suc f) v s \<noteq> None" if le: "3 * length s + 1 \<le> Suc f"
  proof (cases "peek (skip_spaces s) = CHR ''+'' \<or> peek (skip_spaces s) = CHR ''-''")
    case False
    then show ?thesis by (simp add: Let_def)
  next
    case True
    then have sh: "length (tl (skip_spaces s)) < length s"
      using short by fastforce
    have "parse_term A f (tl (skip_spaces s)) \<noteq> None"
      using T sh le by simp
    moreover have "expression_loop A f w r \<noteq> None"
      if "parse_term A f (tl (skip_spaces s)) = Some (Inr (x, r))" for w x r
      using EL [of r w] that le sh parse_shorter [of A f "tl (skip_spaces s)" x r] by simp
    ultimately show ?thesis using True by (auto simp: Let_def pbind_None simp del: not_None_eq)
  qed
  ultimately show ?case by (intro conjI impI)
qed

lemma evaluate_returns: "evaluate A input \<noteq> None"
  using parse_enough [of input "parse_fuel input" A]
  by (auto simp: evaluate_def parse_fuel_def pbind_None Let_def split: if_splits)

subsection \<open>The grammar the evaluator accepts\<close>

text \<open>
  A factor is a number, a parenthesised expression or the negation of a factor; a term is
  a left-associative chain of factors with \<open>*\<close> and \<open>/\<close>, an expression a left-associative chain of
  terms with \<open>+\<close> and \<open>-\<close>; blanks may stand before every token. The second argument is the value.
  A number is a text that \<open>strtod\<close> uses up entirely in some context without a range error.
\<close>

definition number :: "'d arith \<Rightarrow> string \<Rightarrow> 'd \<Rightarrow> bool" where
  "number A t v \<longleftrightarrow> t \<noteq> [] \<and> (\<exists>rest. d_strtod A (t @ rest) = (v, length t, False))"

inductive Factor :: "'d arith \<Rightarrow> string \<Rightarrow> 'd \<Rightarrow> bool"
  and Term :: "'d arith \<Rightarrow> string \<Rightarrow> 'd \<Rightarrow> bool"
  and Expression :: "'d arith \<Rightarrow> string \<Rightarrow> 'd \<Rightarrow> bool"
  for A :: "'d arith"
where
  num: "list_all isspace w \<Longrightarrow> number A t v \<Longrightarrow> Factor A (w @ t) v"
| neg: "list_all isspace w \<Longrightarrow> Factor A u v \<Longrightarrow> Factor A (w @ CHR ''-'' # u) (d_neg A v)"
| paren: "list_all isspace w \<Longrightarrow> Expression A u v \<Longrightarrow> list_all isspace w' \<Longrightarrow>
     Factor A (w @ CHR ''('' # u @ w' @ '')'') v"
| factor: "Factor A u v \<Longrightarrow> Term A u v"
| times: "Term A u a \<Longrightarrow> list_all isspace w \<Longrightarrow> Factor A t b \<Longrightarrow>
     Term A (u @ w @ CHR ''*'' # t) (d_mul A a b)"
| over: "Term A u a \<Longrightarrow> list_all isspace w \<Longrightarrow> Factor A t b \<Longrightarrow>
     Term A (u @ w @ CHR ''/'' # t) (d_div A a b)"
| "term": "Term A u v \<Longrightarrow> Expression A u v"
| plus: "Expression A u a \<Longrightarrow> list_all isspace w \<Longrightarrow> Term A t b \<Longrightarrow>
     Expression A (u @ w @ CHR ''+'' # t) (d_add A a b)"
| minus: "Expression A u a \<Longrightarrow> list_all isspace w \<Longrightarrow> Term A t b \<Longrightarrow>
     Expression A (u @ w @ CHR ''-'' # t) (d_sub A a b)"

text \<open>What \<open>strtod\<close> promises here: its end pointer stays inside the string.\<close>

locale strtod_bounds =
  fixes A :: "'d arith"
  assumes strtod_le: "d_strtod A s = (v, n, e) \<Longrightarrow> n \<le> length s"
begin

lemma factor_step:
  assumes E: "\<And>s v r. parse_expression A f s = Some (Inr (v, r)) \<Longrightarrow>
      \<exists>u w. s = u @ w @ r \<and> Expression A u v \<and> list_all isspace w"
    and F: "\<And>s v r. parse_factor A f s = Some (Inr (v, r)) \<Longrightarrow> \<exists>u. s = u @ r \<and> Factor A u v"
    and p: "parse_factor A (Suc f) s = Some (Inr (v, r))"
  shows "\<exists>u. s = u @ r \<and> Factor A u v"
proof -
  obtain w0 where s: "s = w0 @ skip_spaces s" and w0: "list_all isspace w0"
    using skip_spaces_split by blast
  let ?s = "skip_spaces s"
  consider (par) "peek ?s = CHR ''(''" | (neg) "peek ?s = CHR ''-''"
    | (num) "peek ?s \<noteq> CHR ''(''" "peek ?s \<noteq> CHR ''-''"
    by blast
  then show ?thesis
  proof cases
    case par
    with p obtain b where pe: "parse_expression A f (tl ?s) = Some (Inr (v, b))"
      and c: "peek (skip_spaces b) = CHR '')''" and r: "r = tl (skip_spaces b)"
      by (auto simp: Let_def pbind_Some_Inr split: if_splits)
    from E [OF pe] obtain u w where u: "tl ?s = u @ w @ b" "Expression A u v" "list_all isspace w"
      by blast
    obtain w2 where w2: "b = w2 @ skip_spaces b" "list_all isspace w2"
      using skip_spaces_split by blast
    have "?s = CHR ''('' # tl ?s" and "skip_spaces b = CHR '')'' # r"
      using par c r by (auto intro: peek_Cons)
    with u(1) w2(1) have "?s = CHR ''('' # u @ (w @ w2) @ '')'' @ r" by simp
    with s have "s = (w0 @ CHR ''('' # u @ (w @ w2) @ '')'') @ r" by simp
    moreover have "Factor A (w0 @ CHR ''('' # u @ (w @ w2) @ '')'') v"
      using w0 u w2 by (intro paren) auto
    ultimately show ?thesis by blast
  next
    case neg
    with p obtain x where pf: "parse_factor A f (tl ?s) = Some (Inr (x, r))" and v: "v = d_neg A x"
      by (auto simp: Let_def pbind_Some_Inr split: if_splits)
    from F [OF pf] obtain u where u: "tl ?s = u @ r" "Factor A u x" by blast
    have "?s = CHR ''-'' # tl ?s" using neg by (auto intro: peek_Cons)
    with s u(1) have "s = (w0 @ CHR ''-'' # u) @ r" by simp
    moreover have "Factor A (w0 @ CHR ''-'' # u) v"
      unfolding v using w0 u(2) by (rule Factor_Term_Expression.neg)
    ultimately show ?thesis by blast
  next
    case num
    then obtain n where d: "d_strtod A ?s = (v, n, False)" "n \<noteq> 0" and r: "r = drop n ?s"
      using p by (auto simp: Let_def split: if_splits prod.splits)
    have "n \<le> length ?s" using strtod_le [OF d(1)] .
    with d have "number A (take n ?s) v"
      unfolding number_def by (auto intro!: exI [of _ "drop n ?s"])
    with w0 have "Factor A (w0 @ take n ?s) v" by (intro Factor_Term_Expression.num)
    moreover have "s = (w0 @ take n ?s) @ r" using s r by simp
    ultimately show ?thesis by blast
  qed
qed

lemma loop_head:
  assumes "peek (skip_spaces s) = c" and "c \<noteq> CHR 0x00"
  shows "\<exists>w. s = w @ c # tl (skip_spaces s) \<and> list_all isspace w"
  using skip_spaces_split [of s] peek_Cons [OF assms] by metis

lemma parse_sound:
  "(parse_factor A f s = Some (Inr (x, r)) \<longrightarrow> (\<exists>u. s = u @ r \<and> Factor A u x))
   \<and> (parse_term A f s = Some (Inr (x, r)) \<longrightarrow>
        (\<exists>u w. s = u @ w @ r \<and> Term A u x \<and> list_all isspace w))
   \<and> (term_loop A f v s = Some (Inr (x, r)) \<longrightarrow> Term A u0 v \<longrightarrow>
        (\<exists>u w. s = u @ w @ r \<and> Term A (u0 @ u) x \<and> list_all isspace w))
   \<and> (parse_expression A f s = Some (Inr (x, r)) \<longrightarrow>
        (\<exists>u w. s = u @ w @ r \<and> Expression A u x \<and> list_all isspace w))
   \<and> (expression_loop A f v s = Some (Inr (x, r)) \<longrightarrow> Expression A u0 v \<longrightarrow>
        list_all isspace w1 \<longrightarrow>
        (\<exists>u w. w1 @ s = u @ w @ r \<and> Expression A (u0 @ u) x \<and> list_all isspace w))"
proof (induction f arbitrary: s v x r u0 w1)
  case 0
  show ?case by simp
next
  case (Suc f)
  note F = Suc.IH [THEN conjunct1, THEN mp]
  note T = Suc.IH [THEN conjunct2, THEN conjunct1, THEN mp]
  note TL = Suc.IH [THEN conjunct2, THEN conjunct2, THEN conjunct1, THEN mp, THEN mp]
  note E = Suc.IH [THEN conjunct2, THEN conjunct2, THEN conjunct2, THEN conjunct1, THEN mp]
  note EL = Suc.IH [THEN conjunct2, THEN conjunct2, THEN conjunct2, THEN conjunct2, THEN mp,
      THEN mp, THEN mp]
  have f: "\<exists>u. s = u @ r \<and> Factor A u x" if "parse_factor A (Suc f) s = Some (Inr (x, r))"
    using factor_step [OF E F that] .
  have t: "\<exists>u w. s = u @ w @ r \<and> Term A u x \<and> list_all isspace w"
    if "parse_term A (Suc f) s = Some (Inr (x, r))"
  proof -
    from that obtain a b where "parse_factor A f s = Some (Inr (a, b))"
      and l: "term_loop A f a b = Some (Inr (x, r))"
      by (auto simp: pbind_Some_Inr)
    then obtain u where u: "s = u @ b" "Factor A u a" using F by blast
    then obtain u' w where "b = u' @ w @ r" "Term A (u @ u') x" "list_all isspace w"
      using TL [OF l factor] by blast
    then show ?thesis using u(1) by (intro exI [of _ "u @ u'"] exI [of _ w]) auto
  qed
  have tl: "\<exists>u w. s = u @ w @ r \<and> Term A (u0 @ u) x \<and> list_all isspace w"
    if l: "term_loop A (Suc f) v s = Some (Inr (x, r))" and tv: "Term A u0 v"
  proof (cases "peek (skip_spaces s) = CHR ''*'' \<or> peek (skip_spaces s) = CHR ''/''")
    case False
    with l have "x = v" "r = skip_spaces s" by (auto simp: Let_def)
    moreover obtain w where "s = w @ skip_spaces s" "list_all isspace w"
      using skip_spaces_split by blast
    ultimately show ?thesis using tv by (intro exI [of _ "[]"] exI [of _ w]) auto
  next
    case True
    let ?c = "peek (skip_spaces s)"
    obtain w where w: "s = w @ ?c # tl (skip_spaces s)" "list_all isspace w"
      using True loop_head [of s ?c] by auto
    from l True obtain a b where pf: "parse_factor A f (tl (skip_spaces s)) = Some (Inr (a, b))"
      and l': "term_loop A f (if ?c = CHR ''*'' then d_mul A v a else d_div A v a) b
                 = Some (Inr (x, r))"
      by (auto simp: Let_def pbind_Some_Inr split: if_splits)
    from F [OF pf] obtain t where t: "tl (skip_spaces s) = t @ b" "Factor A t a" by blast
    have "Term A (u0 @ w @ ?c # t) (if ?c = CHR ''*'' then d_mul A v a else d_div A v a)"
      using True times [OF tv w(2) t(2)] over [OF tv w(2) t(2)] by auto
    from TL [OF l' this] obtain u' w' where
      "b = u' @ w' @ r" "Term A ((u0 @ w @ ?c # t) @ u') x" "list_all isspace w'" by blast
    then show ?thesis using w(1) t(1) by (intro exI [of _ "w @ ?c # t @ u'"] exI [of _ w']) auto
  qed
  have e: "\<exists>u w. s = u @ w @ r \<and> Expression A u x \<and> list_all isspace w"
    if "parse_expression A (Suc f) s = Some (Inr (x, r))"
  proof -
    from that obtain a b where "parse_term A f s = Some (Inr (a, b))"
      and l: "expression_loop A f a b = Some (Inr (x, r))"
      by (auto simp: pbind_Some_Inr)
    then obtain u w where u: "s = u @ w @ b" "Term A u a" "list_all isspace w" using T by blast
    then obtain u' w' where "w @ b = u' @ w' @ r" "Expression A (u @ u') x" "list_all isspace w'"
      using EL [OF l "term"] by blast
    then show ?thesis using u(1) by (intro exI [of _ "u @ u'"] exI [of _ w']) auto
  qed
  have el: "\<exists>u w. w1 @ s = u @ w @ r \<and> Expression A (u0 @ u) x \<and> list_all isspace w"
    if l: "expression_loop A (Suc f) v s = Some (Inr (x, r))" and ev: "Expression A u0 v"
      and w1: "list_all isspace w1"
  proof (cases "peek (skip_spaces s) = CHR ''+'' \<or> peek (skip_spaces s) = CHR ''-''")
    case False
    with l have "x = v" "r = skip_spaces s" by (auto simp: Let_def)
    moreover obtain w where "s = w @ skip_spaces s" "list_all isspace w"
      using skip_spaces_split by blast
    ultimately show ?thesis using ev w1 by (intro exI [of _ "[]"] exI [of _ "w1 @ w"]) auto
  next
    case True
    let ?c = "peek (skip_spaces s)"
    obtain w where w: "s = w @ ?c # tl (skip_spaces s)" "list_all isspace w"
      using True loop_head [of s ?c] by auto
    from l True obtain a b where pt: "parse_term A f (tl (skip_spaces s)) = Some (Inr (a, b))"
      and l': "expression_loop A f (if ?c = CHR ''+'' then d_add A v a else d_sub A v a) b
                 = Some (Inr (x, r))"
      by (auto simp: Let_def pbind_Some_Inr split: if_splits)
    from T [OF pt] obtain t w2 where
      t: "tl (skip_spaces s) = t @ w2 @ b" "Term A t a" "list_all isspace w2" by blast
    have ww: "list_all isspace (w1 @ w)" using w w1 by simp
    have "Expression A (u0 @ (w1 @ w) @ ?c # t)
        (if ?c = CHR ''+'' then d_add A v a else d_sub A v a)"
      using True plus [OF ev ww t(2)] minus [OF ev ww t(2)] by auto
    from EL [OF l' this t(3)] obtain u' w' where
      "w2 @ b = u' @ w' @ r" "Expression A ((u0 @ (w1 @ w) @ ?c # t) @ u') x"
      "list_all isspace w'" by blast
    then show ?thesis using w(1) t(1)
      by (intro exI [of _ "w1 @ w @ ?c # t @ u'"] exI [of _ w']) auto
  qed
  show ?case using f t tl e el by (intro conjI impI)
qed

lemma evaluate_grammar:
  assumes "evaluate A input = Some (Inr v)" and nul: "CHR 0x00 \<notin> set input"
  shows "\<exists>u w. input = u @ w \<and> Expression A u v \<and> list_all isspace w"
proof -
  from assms obtain r where p: "parse_expression A (parse_fuel input) input = Some (Inr (v, r))"
    and r: "peek (skip_spaces r) = CHR 0x00 \<or> peek (skip_spaces r) = CHR 0x0A"
    by (auto simp: evaluate_def pbind_Some_Inr Let_def split: if_splits)
  obtain u w where u: "input = u @ w @ r" "Expression A u v" "list_all isspace w"
    using parse_sound [THEN conjunct2, THEN conjunct2, THEN conjunct2, THEN conjunct1, THEN mp, OF p]
    by blast
  obtain w' where w': "r = w' @ skip_spaces r" "list_all isspace w'"
    using skip_spaces_split by blast
  have "peek (skip_spaces r) \<noteq> CHR 0x0A"
    using not_isspace_peek [of r] by (metis isspace_simps(2))
  with r have "peek (skip_spaces r) = CHR 0x00" by blast
  moreover have "CHR 0x00 \<notin> set (skip_spaces r)" using nul u(1) w'(1) by (metis Un_iff set_append)
  ultimately have "skip_spaces r = []" by (cases "skip_spaces r") auto
  with u w' have "input = u @ (w @ w') \<and> Expression A u v \<and> list_all isspace (w @ w')" by auto
  then show ?thesis by blast
qed

end

end
