(* ===== verification/CalcSpec.thy ===== *)
theory CalcSpec
  imports CalcParser Complex_Main
begin

text \<open>
  Expressions as trees, their value and a printer that puts parentheses only where the precedence
  of the operators needs them, and the proof that the evaluator of the calculator server computes
  the value of every printed expression. The locale \<open>number_syntax\<close> says what the proof needs of
  \<open>strtod\<close> on printed numbers; exact rational arithmetic with decimal integers is an instance.
\<close>

subsection \<open>Expression trees\<close>

datatype binop = OpAdd | OpSub | OpMul | OpDiv

datatype 'd ast = Num 'd | Neg "'d ast" | Bin binop "'d ast" "'d ast"

fun prec :: "binop \<Rightarrow> nat" where
  "prec OpAdd = 0" | "prec OpSub = 0" | "prec OpMul = 1" | "prec OpDiv = 1"

fun op_char :: "binop \<Rightarrow> char" where
  "op_char OpAdd = CHR ''+''" | "op_char OpSub = CHR ''-''"
| "op_char OpMul = CHR ''*''" | "op_char OpDiv = CHR ''/''"

fun op_val :: "'d arith \<Rightarrow> binop \<Rightarrow> 'd \<Rightarrow> 'd \<Rightarrow> 'd" where
  "op_val A OpAdd = d_add A" | "op_val A OpSub = d_sub A"
| "op_val A OpMul = d_mul A" | "op_val A OpDiv = d_div A"

fun ast_val :: "'d arith \<Rightarrow> 'd ast \<Rightarrow> 'd" where
  "ast_val A (Num x) = x"
| "ast_val A (Neg e) = d_neg A (ast_val A e)"
| "ast_val A (Bin op a b) = op_val A op (ast_val A a) (ast_val A b)"

text \<open>The argument is the weakest precedence the context takes without parentheses.\<close>

fun show_ast :: "('d \<Rightarrow> string) \<Rightarrow> nat \<Rightarrow> 'd ast \<Rightarrow> string" where
  "show_ast sh p (Num x) = sh x"
| "show_ast sh p (Neg e) = CHR ''-'' # show_ast sh 2 e"
| "show_ast sh p (Bin op a b) =
     (let body = show_ast sh (prec op) a @ '' '' @ [op_char op] @ '' '' @
                 show_ast sh (Suc (prec op)) b
      in if prec op < p then ''('' @ body @ '')'' else body)"

fun numbers :: "'d ast \<Rightarrow> 'd set" where
  "numbers (Num x) = {x}"
| "numbers (Neg e) = numbers e"
| "numbers (Bin op a b) = numbers a \<union> numbers b"

text \<open>The characters that may follow a number in a printed expression.\<close>

definition number_end :: "string \<Rightarrow> bool" where
  "number_end rest \<longleftrightarrow> peek rest \<in> {CHR 0x00, CHR '' '', CHR '')'', CHR 0x0A}"

subsection \<open>The functions without fuel\<close>

definition factor_gives :: "'d arith \<Rightarrow> string \<Rightarrow> ('d \<times> string) res \<Rightarrow> bool" where
  "factor_gives A s x \<longleftrightarrow> (\<exists>f. parse_factor A f s = Some x)"

definition term_gives :: "'d arith \<Rightarrow> string \<Rightarrow> ('d \<times> string) res \<Rightarrow> bool" where
  "term_gives A s x \<longleftrightarrow> (\<exists>f. parse_term A f s = Some x)"

definition term_loop_gives :: "'d arith \<Rightarrow> 'd \<Rightarrow> string \<Rightarrow> ('d \<times> string) res \<Rightarrow> bool" where
  "term_loop_gives A v s x \<longleftrightarrow> (\<exists>f. term_loop A f v s = Some x)"

definition expression_gives :: "'d arith \<Rightarrow> string \<Rightarrow> ('d \<times> string) res \<Rightarrow> bool" where
  "expression_gives A s x \<longleftrightarrow> (\<exists>f. parse_expression A f s = Some x)"

definition expression_loop_gives :: "'d arith \<Rightarrow> 'd \<Rightarrow> string \<Rightarrow> ('d \<times> string) res \<Rightarrow> bool" where
  "expression_loop_gives A v s x \<longleftrightarrow> (\<exists>f. expression_loop A f v s = Some x)"

lemma factor_num:
  assumes "peek s \<noteq> CHR ''(''" "peek s \<noteq> CHR ''-''" "\<not> isspace (peek s)"
    and "d_strtod A s = (v, n, False)" "n \<noteq> 0"
  shows "factor_gives A s (Inr (v, drop n s))"
proof -
  have "parse_factor A (Suc 0) s = Some (Inr (v, drop n s))"
    using assms by (simp add: Let_def)
  then show ?thesis unfolding factor_gives_def ..
qed

lemma factor_neg:
  assumes "factor_gives A s (Inr (v, r))"
  shows "factor_gives A (CHR ''-'' # s) (Inr (d_neg A v, r))"
proof -
  from assms obtain f where "parse_factor A f s = Some (Inr (v, r))"
    unfolding factor_gives_def ..
  then have "parse_factor A (Suc f) (CHR ''-'' # s) = Some (Inr (d_neg A v, r))"
    by (simp add: Let_def)
  then show ?thesis unfolding factor_gives_def ..
qed

lemma factor_paren:
  assumes "expression_gives A s (Inr (v, CHR '')'' # r))"
  shows "factor_gives A (CHR ''('' # s) (Inr (v, r))"
proof -
  from assms obtain f where "parse_expression A f s = Some (Inr (v, CHR '')'' # r))"
    unfolding expression_gives_def ..
  then have "parse_factor A (Suc f) (CHR ''('' # s) = Some (Inr (v, r))"
    by (simp add: Let_def)
  then show ?thesis unfolding factor_gives_def ..
qed

lemma parse_factor_blank [simp]: "parse_factor A f (CHR '' '' # s) = parse_factor A f s"
  by (cases f) simp_all

lemma factor_blank: "factor_gives A s x \<Longrightarrow> factor_gives A (CHR '' '' # s) x"
  by (simp add: factor_gives_def)

lemmas parse_max = parse_mono_le [OF max.cobounded1] parse_mono_le [OF max.cobounded2]

lemma term_gives_intro:
  assumes "factor_gives A s (Inr (v, r))" and "term_loop_gives A v r x"
  shows "term_gives A s x"
proof -
  from assms obtain f g where "parse_factor A f s = Some (Inr (v, r))" "term_loop A g v r = Some x"
    unfolding factor_gives_def term_loop_gives_def by blast
  then have "parse_factor A (max f g) s = Some (Inr (v, r))" "term_loop A (max f g) v r = Some x"
    by (simp_all add: parse_max)
  then have "parse_term A (Suc (max f g)) s = Some x" by simp
  then show ?thesis unfolding term_gives_def ..
qed

lemma expression_gives_intro:
  assumes "term_gives A s (Inr (v, r))" and "expression_loop_gives A v r x"
  shows "expression_gives A s x"
proof -
  from assms obtain f g where
    "parse_term A f s = Some (Inr (v, r))" "expression_loop A g v r = Some x"
    unfolding term_gives_def expression_loop_gives_def by blast
  then have "parse_term A (max f g) s = Some (Inr (v, r))"
    "expression_loop A (max f g) v r = Some x"
    by (simp_all add: parse_max)
  then have "parse_expression A (Suc (max f g)) s = Some x" by simp
  then show ?thesis unfolding expression_gives_def ..
qed

lemma parse_term_blank [simp]: "parse_term A f (CHR '' '' # s) = parse_term A f s"
  by (cases f) simp_all

lemma term_blank: "term_gives A s x \<Longrightarrow> term_gives A (CHR '' '' # s) x"
  by (simp add: term_gives_def)

lemma term_loop_stop:
  assumes "peek (skip_spaces s) \<noteq> CHR ''*''" "peek (skip_spaces s) \<noteq> CHR ''/''"
  shows "term_loop_gives A v s (Inr (v, skip_spaces s))"
proof -
  have "term_loop A (Suc 0) v s = Some (Inr (v, skip_spaces s))" using assms by (simp add: Let_def)
  then show ?thesis unfolding term_loop_gives_def ..
qed

lemma expression_loop_stop:
  assumes "peek (skip_spaces s) \<noteq> CHR ''+''" "peek (skip_spaces s) \<noteq> CHR ''-''"
  shows "expression_loop_gives A v s (Inr (v, skip_spaces s))"
proof -
  have "expression_loop A (Suc 0) v s = Some (Inr (v, skip_spaces s))"
    using assms by (simp add: Let_def)
  then show ?thesis unfolding expression_loop_gives_def ..
qed

lemma term_loop_op:
  assumes "op \<in> {OpMul, OpDiv}" and "factor_gives A s (Inr (b, r))"
    and "term_loop_gives A (op_val A op v b) r x"
  shows "term_loop_gives A v (CHR '' '' # op_char op # s) x"
proof -
  from assms obtain f g where "parse_factor A f s = Some (Inr (b, r))"
    "term_loop A g (op_val A op v b) r = Some x"
    unfolding factor_gives_def term_loop_gives_def by blast
  then have "parse_factor A (max f g) s = Some (Inr (b, r))"
    "term_loop A (max f g) (op_val A op v b) r = Some x"
    by (simp_all add: parse_max)
  then have "term_loop A (Suc (max f g)) v (CHR '' '' # op_char op # s) = Some x"
    using assms(1) by (auto simp: Let_def)
  then show ?thesis unfolding term_loop_gives_def ..
qed

lemma expression_loop_op:
  assumes "op \<in> {OpAdd, OpSub}" and "term_gives A s (Inr (b, r))"
    and "expression_loop_gives A (op_val A op v b) r x"
  shows "expression_loop_gives A v (CHR '' '' # op_char op # s) x"
proof -
  from assms obtain f g where "parse_term A f s = Some (Inr (b, r))"
    "expression_loop A g (op_val A op v b) r = Some x"
    unfolding term_gives_def expression_loop_gives_def by blast
  then have "parse_term A (max f g) s = Some (Inr (b, r))"
    "expression_loop A (max f g) (op_val A op v b) r = Some x"
    by (simp_all add: parse_max)
  then have "expression_loop A (Suc (max f g)) v (CHR '' '' # op_char op # s) = Some x"
    using assms(1) by (auto simp: Let_def)
  then show ?thesis unfolding expression_loop_gives_def ..
qed

lemma expression_gives_parse:
  assumes "expression_gives A s x"
  shows "parse_expression A (parse_fuel s) s = Some x"
proof -
  obtain y where y: "parse_expression A (parse_fuel s) s = Some y"
    using parse_enough [of s "parse_fuel s" A] by (auto simp: parse_fuel_def)
  from assms obtain f where f: "parse_expression A f s = Some x"
    unfolding expression_gives_def ..
  let ?m = "max f (parse_fuel s)"
  have "parse_expression A ?m s = Some x" using f by (rule parse_max)
  moreover have "parse_expression A ?m s = Some y" using y by (rule parse_max)
  ultimately show ?thesis using y by simp
qed

subsection \<open>Printed expressions evaluate to their value\<close>

text \<open>What the round trip needs of \<open>strtod\<close> on the texts of printable numbers.\<close>

locale number_syntax = strtod_bounds A for A :: "'d arith" +
  fixes show_num :: "'d \<Rightarrow> string"
    and printable :: "'d \<Rightarrow> bool"
  assumes show_start: "printable x \<Longrightarrow> show_num x \<noteq> [] \<and> \<not> isspace (hd (show_num x))
      \<and> hd (show_num x) \<noteq> CHR ''('' \<and> hd (show_num x) \<noteq> CHR ''-''"
    and strtod_show: "printable x \<Longrightarrow> number_end rest \<Longrightarrow>
      d_strtod A (show_num x @ rest) = (x, length (show_num x), False)"
begin

definition no_times :: "string \<Rightarrow> bool" where
  "no_times s \<longleftrightarrow> peek (skip_spaces s) \<noteq> CHR ''*'' \<and> peek (skip_spaces s) \<noteq> CHR ''/''"

lemma number_end_simps [simp]:
  "number_end (CHR '' '' # s)" "number_end (CHR '')'' # s)" "number_end []"
  by (simp_all add: number_end_def)

lemma expression_loop_skip [simp]:
  "expression_loop_gives A v (skip_spaces s) x = expression_loop_gives A v s x"
proof -
  have "expression_loop A f v (skip_spaces s) = expression_loop A f v s" for f
    by (cases f) simp_all
  then show ?thesis by (simp add: expression_loop_gives_def)
qed

text \<open>
  The three levels, each in the context of what follows: as a factor the text is used up and its
  value given, as a term or an expression the loop goes on with the value.
\<close>

definition good_factor :: "string \<Rightarrow> 'd \<Rightarrow> bool" where
  "good_factor t v \<longleftrightarrow> (\<forall>rest. number_end rest \<longrightarrow> factor_gives A (t @ rest) (Inr (v, rest)))"

definition good_term :: "string \<Rightarrow> 'd \<Rightarrow> bool" where
  "good_term t v \<longleftrightarrow> (\<forall>rest x. number_end rest \<longrightarrow> term_loop_gives A v rest x \<longrightarrow>
     term_gives A (t @ rest) x)"

definition good_expression :: "string \<Rightarrow> 'd \<Rightarrow> bool" where
  "good_expression t v \<longleftrightarrow> (\<forall>rest x. number_end rest \<longrightarrow> no_times rest \<longrightarrow>
     expression_loop_gives A v rest x \<longrightarrow> expression_gives A (t @ rest) x)"

lemma good_num:
  assumes "printable n"
  shows "good_factor (show_num n) n"
  unfolding good_factor_def
proof (intro allI impI)
  fix rest
  assume r: "number_end rest"
  obtain c cs where c: "show_num n = c # cs"
    using show_start [OF assms] by (cases "show_num n") auto
  have d: "d_strtod A (c # cs @ rest) = (n, Suc (length cs), False)"
    using strtod_show [OF assms r] c by simp
  have "factor_gives A (c # cs @ rest) (Inr (n, drop (Suc (length cs)) (c # cs @ rest)))"
    by (rule factor_num) (use show_start [OF assms] c d in auto)
  then show "factor_gives A (show_num n @ rest) (Inr (n, rest))" using c by simp
qed

lemma good_neg: "good_factor t v \<Longrightarrow> good_factor (CHR ''-'' # t) (d_neg A v)"
  by (simp add: good_factor_def factor_neg)

lemma good_factor_term: "good_factor t v \<Longrightarrow> good_term t v"
  by (auto simp: good_factor_def good_term_def intro: term_gives_intro)

lemma good_term_expression: "good_term t v \<Longrightarrow> good_expression t v"
  unfolding good_term_def good_expression_def no_times_def
  by (metis expression_gives_intro expression_loop_skip term_loop_stop)

lemma good_paren: "good_expression t v \<Longrightarrow> good_factor (''('' @ t @ '')'') v"
proof -
  assume "good_expression t v"
  moreover have "expression_loop_gives A v (CHR '')'' # rest) (Inr (v, CHR '')'' # rest))" for rest
    using expression_loop_stop [of "CHR '')'' # rest" A v] by simp
  ultimately have "expression_gives A (t @ CHR '')'' # rest) (Inr (v, CHR '')'' # rest))" for rest
    unfolding good_expression_def by (auto simp: no_times_def)
  then show ?thesis by (simp add: good_factor_def factor_paren)
qed

lemma good_times:
  assumes "op \<in> {OpMul, OpDiv}" and a: "good_term s v" and b: "good_factor t w"
  shows "good_term (s @ '' '' @ [op_char op] @ '' '' @ t) (op_val A op v w)"
proof -
  have "term_gives A ((s @ '' '' @ [op_char op] @ '' '' @ t) @ rest) x"
    if r: "number_end rest" and l: "term_loop_gives A (op_val A op v w) rest x" for rest x
  proof -
    have "factor_gives A (CHR '' '' # t @ rest) (Inr (w, rest))"
      using b r by (auto simp: good_factor_def intro: factor_blank)
    then have "term_loop_gives A v (CHR '' '' # op_char op # CHR '' '' # t @ rest) x"
      using assms(1) l by (intro term_loop_op)
    then show ?thesis using a by (simp add: good_term_def)
  qed
  then show ?thesis by (simp add: good_term_def)
qed

lemma good_plus:
  assumes op: "op \<in> {OpAdd, OpSub}" and a: "good_expression s v" and b: "good_term t w"
  shows "good_expression (s @ '' '' @ [op_char op] @ '' '' @ t) (op_val A op v w)"
proof -
  have "expression_gives A ((s @ '' '' @ [op_char op] @ '' '' @ t) @ rest) x"
    if r: "number_end rest" and n: "no_times rest"
      and l: "expression_loop_gives A (op_val A op v w) rest x" for rest x
  proof -
    have "term_loop_gives A w rest (Inr (w, skip_spaces rest))"
      using n by (intro term_loop_stop) (auto simp: no_times_def)
    then have "term_gives A (CHR '' '' # t @ rest) (Inr (w, skip_spaces rest))"
      using b r by (auto simp: good_term_def intro: term_blank)
    then have "expression_loop_gives A v (CHR '' '' # op_char op # CHR '' '' # t @ rest) x"
      by (rule expression_loop_op [OF op]) (simp add: l)
    moreover have "no_times (CHR '' '' # op_char op # CHR '' '' # t @ rest)"
      using op by (auto simp: no_times_def)
    ultimately show ?thesis using a by (simp add: good_expression_def)
  qed
  then show ?thesis by (simp add: good_expression_def)
qed

lemma printed:
  assumes "\<forall>x \<in> numbers e. printable x"
  shows "good_factor (show_ast show_num 2 e) (ast_val A e) \<and>
    good_term (show_ast show_num 1 e) (ast_val A e) \<and>
    good_expression (show_ast show_num 0 e) (ast_val A e)"
  using assms
proof (induction e)
  case (Num n)
  then have "good_factor (show_num n) n" by (intro good_num) simp
  then show ?case by (auto intro: good_factor_term good_term_expression)
next
  case (Neg e)
  then have "good_factor (CHR ''-'' # show_ast show_num 2 e) (d_neg A (ast_val A e))"
    by (intro good_neg) simp
  then show ?case by (auto intro: good_factor_term good_term_expression)
next
  case (Bin op a b)
  let ?v = "op_val A op (ast_val A a) (ast_val A b)"
  show ?case
  proof (cases "op \<in> {OpMul, OpDiv}")
    case True
    let ?t = "show_ast show_num 1 a @ '' '' @ [op_char op] @ '' '' @ show_ast show_num 2 b"
    have t: "good_term ?t ?v" using Bin True by (intro good_times) auto
    then have "good_expression ?t ?v" by (rule good_term_expression)
    with t good_paren [OF this] True show ?thesis by (auto simp: Let_def numeral_2_eq_2)
  next
    case False
    let ?t = "show_ast show_num 0 a @ '' '' @ [op_char op] @ '' '' @ show_ast show_num 1 b"
    have op: "op \<in> {OpAdd, OpSub}" using False by (cases op) auto
    then have e: "good_expression ?t ?v" using Bin by (intro good_plus) auto
    then have f: "good_factor (''('' @ ?t @ '')'') ?v" by (rule good_paren)
    with e good_factor_term [OF f] op show ?thesis by (auto simp: Let_def)
  qed
qed

lemma evaluate_printed:
  assumes "\<forall>x \<in> numbers e. printable x" and "list_all isspace w" and "number_end w"
  shows "evaluate A (show_ast show_num 0 e @ w) = Some (Inr (ast_val A e))"
proof -
  have w: "skip_spaces w = []"
    using assms(2) by (induction w) auto
  have "expression_loop_gives A (ast_val A e) w (Inr (ast_val A e, []))"
    using expression_loop_stop [of w A "ast_val A e"] w by simp
  then have "expression_gives A (show_ast show_num 0 e @ w) (Inr (ast_val A e, []))"
    using printed [OF assms(1)] assms(3) w by (simp add: good_expression_def no_times_def)
  from expression_gives_parse [OF this] show ?thesis
    by (simp add: evaluate_def)
qed

end

subsection \<open>Exact rational arithmetic with decimal integers\<close>

text \<open>
  An instance of the parameters: \<open>double\<close> as the rationals, \<open>strtod\<close> on unsigned decimal
  integers. On results that a double holds exactly the two agree.
\<close>

definition isdigit :: "char \<Rightarrow> bool" where
  "isdigit c \<longleftrightarrow> c \<in> set ''0123456789''"

definition digit_val :: "char \<Rightarrow> nat" where
  "digit_val c = length (takeWhile (\<lambda>d. d \<noteq> c) ''0123456789'')"

definition strtod_dec :: "string \<Rightarrow> rat \<times> nat \<times> bool" where
  "strtod_dec s =
     (let ds = takeWhile isdigit s
      in (of_nat (foldl (\<lambda>a c. 10 * a + digit_val c) 0 ds), length ds, False))"

definition fmt3_rat :: "rat \<Rightarrow> string" where
  "fmt3_rat r =
     (let k = round (r * 1000); n = nat \<bar>k\<bar>; m = n mod 1000
      in (if k < 0 then ''-'' else []) @ digits (n div 1000) @ ''.'' @
         [digit (m div 100), digit (m div 10 mod 10), digit (m mod 10)])"

definition rat_arith :: "rat arith" where
  "rat_arith = \<lparr>d_neg = uminus, d_add = (+), d_sub = (-), d_mul = (*), d_div = (/),
     d_strtod = strtod_dec, d_fmt3 = fmt3_rat\<rparr>"

definition show_rat :: "rat \<Rightarrow> string" where
  "show_rat r = digits (nat \<lfloor>r\<rfloor>)"

definition printable_rat :: "rat \<Rightarrow> bool" where
  "printable_rat r \<longleftrightarrow> r = of_nat (nat \<lfloor>r\<rfloor>)"

lemma less_10_cases:
  "(n::nat) < 10 \<Longrightarrow> n = 0 \<or> n = 1 \<or> n = 2 \<or> n = 3 \<or> n = 4 \<or> n = 5 \<or> n = 6 \<or> n = 7 \<or> n = 8 \<or> n = 9"
  by arith

lemma digit_facts:
  assumes "n < 10"
  shows "isdigit (digit n)" and "digit_val (digit n) = n" and "\<not> isspace (digit n)"
    and "digit n \<noteq> CHR ''(''" and "digit n \<noteq> CHR ''-''"
  using less_10_cases [OF assms]
  by (elim disjE; simp add: isdigit_def digit_val_def digit_def isspace_def)+

lemma isdigit_digits: "list_all isdigit (digits n)"
proof (induction n rule: digits.induct)
  case (1 n)
  then show ?case by (cases "n < 10") (auto simp: digits.simps [of n] digit_facts)
qed

lemma digits_val: "foldl (\<lambda>a c. 10 * a + digit_val c) 0 (digits n) = n"
proof (induction n rule: digits.induct)
  case (1 n)
  then show ?case by (cases "n < 10") (auto simp: digits.simps [of n] digit_facts)
qed

lemma hd_digits: "\<exists>m < 10. hd (digits n) = digit m"
proof (induction n rule: digits.induct)
  case (1 n)
  then show ?case by (cases "n < 10") (auto simp: digits.simps [of n] hd_append)
qed

lemma takeWhile_digits:
  assumes "number_end rest"
  shows "takeWhile isdigit (digits n @ rest) = digits n"
proof -
  have "takeWhile isdigit rest = []"
    using assms by (cases rest) (auto simp: number_end_def isdigit_def)
  moreover have "\<forall>c \<in> set (digits n). isdigit c"
    using isdigit_digits [of n] by (simp add: list_all_iff)
  ultimately show ?thesis by simp
qed

interpretation rat: number_syntax rat_arith show_rat printable_rat
proof unfold_locales
  fix s v n e
  assume "d_strtod rat_arith s = (v, n, e)"
  then show "n \<le> length s"
    by (auto simp: rat_arith_def strtod_dec_def Let_def length_takeWhile_le)
next
  fix x
  show "show_rat x \<noteq> [] \<and> \<not> isspace (hd (show_rat x)) \<and> hd (show_rat x) \<noteq> CHR ''(''
      \<and> hd (show_rat x) \<noteq> CHR ''-''"
    using hd_digits [of "nat \<lfloor>x\<rfloor>"]
    by (auto simp: show_rat_def digit_facts dest: digit_facts(4,5) [symmetric])
next
  fix x rest
  assume "printable_rat x" and "number_end rest"
  then show "d_strtod rat_arith (show_rat x @ rest) = (x, length (show_rat x), False)"
    by (simp add: rat_arith_def strtod_dec_def show_rat_def takeWhile_digits digits_val
        printable_rat_def Let_def)
qed

end
