(* ===== verification/CalcServer.thy ===== *)
theory CalcServer
  imports CalcSpec
begin

text \<open>
  The calculator service: \<open>serve\<close>, the signal handler \<open>reap\<close>, the set-up and the accept loop of
  \<open>Sockets/unix_calc_server.c\<close>, the child of one connection, and the client
  \<open>Sockets/unix_calc_client.c\<close>.
\<close>

subsection \<open>Answering one request: serve\<close>

definition BUFFER_SIZE :: nat where
  "BUFFER_SIZE = 512"

definition reply_text :: "'d arith \<Rightarrow> int \<Rightarrow> 'd \<Rightarrow> string" where
  "reply_text A pid result =
     ''pid='' @ fmt_d pid @ '' result='' @ d_fmt3 A result @ [newline]"

text \<open>
  The value is what the client receives, or how the process stops. \<open>write_all\<close> reads \<open>len\<close> bytes
  from the array \<open>response\<close>, the text with its NUL; more than the array holds is undefined.
\<close>

definition serve :: "'d arith \<Rightarrow> int \<Rightarrow> read_res \<Rightarrow> write_res list \<Rightarrow> string res option" where
  "serve A pid rd ws =
     (case sys_read (BUFFER_SIZE - 1) rd of (n, bytes) \<Rightarrow>
        if n \<le> 0 then Some (Inr [])
        else
          (case terminate_at BUFFER_SIZE bytes n of
             Inl h \<Rightarrow> Some (Inl h)
           | Inr request \<Rightarrow>
               pbind (evaluate A request)
                 (\<lambda>result.
                    case snprintf BUFFER_SIZE (reply_text A pid result) of (response, len) \<Rightarrow>
                      if int BUFFER_SIZE < len then Some (Inl (Undef ''read past response''))
                      else
                        pbind (write_all_socket ws (response @ [CHR 0x00]) (of_int len))
                          (\<lambda>(r, out, ws'). Some (Inr out)))))"

subsection \<open>The server process\<close>

definition DEFAULT_SOCKET :: string where
  "DEFAULT_SOCKET = ''/tmp/ipc_calc.sock''"

definition SUN_PATH_SIZE :: nat where
  "SUN_PATH_SIZE = 108"

text \<open>The handler of \<open>SIGCHLD\<close>: the results of \<open>waitpid (-1, NULL, WNOHANG)\<close>, 0 for no zombie.\<close>

fun reap :: "int list \<Rightarrow> (int list \<times> int list) option" where
  "reap [] = None"
| "reap (r # rs) =
     (if 0 < r then map_option (\<lambda>(ps, rs'). (r # ps, rs')) (reap rs) else Some ([], rs))"

record server_state =
  srv_fds :: "unit fdtab"
  spawned :: "(int \<times> int) list" \<comment> \<open>process number and descriptor of each connection\<close>

text \<open>
  The set-up: the arguments, the path names that exist, the results of \<open>socket\<close>, \<open>bind\<close> and \<open>listen\<close>. \<open>unlink\<close> removes the whole
  path, \<open>bind\<close> makes the one that fits into \<open>sun_path\<close> and fails when it exists; an empty one gives an address in the abstract
  namespace. \<open>bind_res\<close> is another error. The result holds the descriptor table, the path bound and the text on
  standard output, and the path names that exist then. Path names are taken to be absolute and without links.
\<close>

definition calc_server_setup ::
    "string list \<Rightarrow> string list \<Rightarrow> errno + int \<Rightarrow> errno option \<Rightarrow> errno option
       \<Rightarrow> (server_state \<times> string \<times> string) res \<times> string list" where
  "calc_server_setup argv names sock bind_res listen_res =
     (let path = (if 1 < length argv then argv ! 1 else DEFAULT_SOCKET) in
      case sock of
        Inl e \<Rightarrow> (Inl (die_errno ''socket'' e), names)
      | Inr server \<Rightarrow>
          (let sun_path = fst (snprintf SUN_PATH_SIZE path);
               unlinked = removeAll path names
           in case (if sun_path \<in> set unlinked then Some EADDRINUSE else bind_res) of
             Some e \<Rightarrow> (Inl (die_errno ''bind/listen'' e), unlinked)
           | None \<Rightarrow>
               (let names' = (if sun_path = [] then unlinked else sun_path # unlinked)
                in case listen_res of
                  Some e \<Rightarrow> (Inl (die_errno ''bind/listen'' e), names')
                | None \<Rightarrow>
                    (Inr (\<lparr>srv_fds = (\<lambda>fd. None)(server \<mapsto> ()), spawned = []\<rparr>, sun_path,
                          ''unix_calc_server listening on '' @ path @ [newline]), names'))))"

datatype accept_res = AcceptFd int | AcceptErr errno
datatype fork_res = Forked int | ForkErr errno

definition server_iteration :: "server_state \<Rightarrow> accept_res \<times> fork_res \<Rightarrow> server_state res" where
  "server_iteration s ev =
     (case fst ev of
        AcceptErr e \<Rightarrow> if e = EINTR then Inr s else Inl (die_errno ''accept'' e)
      | AcceptFd client \<Rightarrow>
          (case snd ev of
             ForkErr e \<Rightarrow> Inl (die_errno ''fork'' e)
           | Forked child \<Rightarrow>
               (case xclose ((srv_fds s)(client \<mapsto> ())) client None of
                  (Inl h, tab) \<Rightarrow> Inl h
                | (Inr u, tab) \<Rightarrow>
                    Inr (s\<lparr>srv_fds := tab, spawned := spawned s @ [(child, client)]\<rparr>))))"

fun server_loop :: "server_state \<Rightarrow> (accept_res \<times> fork_res) list \<Rightarrow> server_state res" where
  "server_loop s [] = Inr s"
| "server_loop s (ev # evs) =
     (case server_iteration s ev of Inl h \<Rightarrow> Inl h | Inr s' \<Rightarrow> server_loop s' evs)"

text \<open>The child of a connection; it exits with status 0 after the last step.\<close>

definition server_child ::
    "'d arith \<Rightarrow> unit fdtab \<Rightarrow> int \<Rightarrow> int \<Rightarrow> int \<Rightarrow> read_res \<Rightarrow> write_res list
       \<Rightarrow> (string \<times> unit fdtab) res option" where
  "server_child A tab server client pid rd ws =
     (case xclose tab server None of
        (Inl h, tab1) \<Rightarrow> Some (Inl h)
      | (Inr u, tab1) \<Rightarrow>
          pbind (serve A pid rd ws)
            (\<lambda>out. case xclose tab1 client None of
                 (Inl h, tab2) \<Rightarrow> Some (Inl h)
               | (Inr u, tab2) \<Rightarrow> Some (Inr (out, tab2))))"

subsection \<open>The client\<close>

text \<open>The value is the bytes sent to the server and the text printed.\<close>

definition unix_calc_client ::
    "string list \<Rightarrow> errno + int \<Rightarrow> errno option \<Rightarrow> write_res list \<Rightarrow> read_res
       \<Rightarrow> (string \<times> string) res option" where
  "unix_calc_client argv sock connect_res ws rd =
     (if length argv \<noteq> 3 then
        Some (Inl (Exit 2 (''usage: '' @ (if argv = [] then ''(null)'' else argv ! 0) @
                           '' <socket-path> <expression>'' @ [newline])))
      else
        (case sock of
           Inl e \<Rightarrow> Some (Inl (die_errno ''socket'' e))
         | Inr fd \<Rightarrow>
             (case connect_res of
                Some e \<Rightarrow> Some (Inl (die_errno ''connect'' e))
              | None \<Rightarrow>
                  (case write_all_socket ws (argv ! 2) (of_nat (length (argv ! 2))) of
                     None \<Rightarrow> None
                   | Some (Inl h) \<Rightarrow> Some (Inl h)
                   | Some (Inr (r, sent, ws')) \<Rightarrow>
                       (case rd of
                          RdErr e \<Rightarrow> Some (Inl (die_errno ''read'' e))
                        | Avail bs \<Rightarrow>
                            (case sys_read 255 rd of (n, bytes) \<Rightarrow>
                               (case terminate_at 256 bytes n of
                                  Inl h \<Rightarrow> Some (Inl h)
                                | Inr response \<Rightarrow>
                                    (case xclose ((\<lambda>i. None)(fd \<mapsto> ())) fd None of
                                       (Inl h, tab) \<Rightarrow> Some (Inl h)
                                     | (Inr u, tab) \<Rightarrow> Some (Inr (sent, response))))))))))"

subsection \<open>Lemmas\<close>

text \<open>A request of at most 511 bytes without NUL is evaluated as it is.\<close>

lemma serve_request:
  assumes "bs \<noteq> []" and "length bs < BUFFER_SIZE"
  shows "serve A pid (Avail bs) ws =
     pbind (evaluate A (cstring bs))
       (\<lambda>result.
          case snprintf BUFFER_SIZE (reply_text A pid result) of (response, len) \<Rightarrow>
            if int BUFFER_SIZE < len then Some (Inl (Undef ''read past response''))
            else pbind (write_all_socket ws (response @ [CHR 0x00]) (of_int len))
                   (\<lambda>(r, out, ws'). Some (Inr out)))"
proof -
  have "take (BUFFER_SIZE - 1) bs = bs" using assms(2) by simp
  moreover have "terminate_at BUFFER_SIZE bs (int (length bs)) = Inr (cstring bs)"
    using assms(2) by (rule terminate_at_ok)
  ultimately show ?thesis using assms by (simp add: serve_def)
qed

lemma serve_reply:
  assumes "bs \<noteq> []" and "length bs < BUFFER_SIZE" and "evaluate A (cstring bs) = Some (Inr v)"
    and len: "length (reply_text A pid v) < BUFFER_SIZE"
    and ws: "\<forall>r \<in> set ws. retryable r" "BUFFER_SIZE \<le> sum_list (map accepted ws)"
  shows "serve A pid (Avail bs) ws = Some (Inr (reply_text A pid v))"
proof -
  let ?t = "reply_text A pid v"
  have u: "unat (of_nat (length ?t) :: size_t) = length ?t"
    using len by (intro unat_of_nat_size) (simp add: BUFFER_SIZE_def)
  have "\<exists>rs'. write_all ws (?t @ [CHR 0x00]) (of_nat (length ?t)) =
      Some (sint (of_nat (length ?t) :: size_t),
        take (unat (of_nat (length ?t) :: size_t)) (?t @ [CHR 0x00]), rs')"
    by (rule write_all_returns) (use ws len u in auto)
  then obtain rs' where "write_all ws (?t @ [CHR 0x00]) (of_nat (length ?t)) =
      Some (sint (of_nat (length ?t) :: size_t), ?t, rs')"
    using u by auto
  moreover have "length ?t < 2 ^ 63" using len by (simp add: BUFFER_SIZE_def)
  then have "sint (of_nat (length ?t) :: size_t) \<noteq> -1" by (simp add: sint_len)
  ultimately show ?thesis
    unfolding serve_request [OF assms(1,2)] using len assms(3) write_all_socket_ok
    by (simp add: snprintf_fits)
qed

lemma length_reply_text:
  assumes "0 \<le> pid" "pid \<le> INT_MAX" and "length (d_fmt3 A v) \<le> k"
  shows "length (reply_text A pid v) \<le> 24 + k"
proof -
  have "length (fmt_d pid) \<le> Suc 10"
    using assms(1,2) by (intro length_fmt_d) (simp_all add: INT_MAX_def)
  then show ?thesis using assms(3) by (simp add: reply_text_def)
qed

text \<open>The loop of the server leaves its descriptor table as it found it.\<close>

fun connections :: "(accept_res \<times> fork_res) list \<Rightarrow> (int \<times> int) list" where
  "connections [] = []"
| "connections ((AcceptFd c, Forked p) # evs) = (p, c) # connections evs"
| "connections (ev # evs) = connections evs"

definition kernel_ok :: "unit fdtab \<Rightarrow> accept_res \<times> fork_res \<Rightarrow> bool" where
  "kernel_ok tab ev \<longleftrightarrow> (\<forall>c. fst ev = AcceptFd c \<longrightarrow> 0 \<le> c \<and> tab c = None)"

definition survivable :: "accept_res \<times> fork_res \<Rightarrow> bool" where
  "survivable ev \<longleftrightarrow> fst ev = AcceptErr EINTR \<or> (\<exists>c p. ev = (AcceptFd c, Forked p))"

lemma server_iteration_ok:
  assumes "kernel_ok (srv_fds s) ev" and "survivable ev"
  shows "server_iteration s ev = Inr (s\<lparr>spawned := spawned s @ connections [ev]\<rparr>)"
proof -
  consider (intr) f where "ev = (AcceptErr EINTR, f)"
    | (conn) c p where "ev = (AcceptFd c, Forked p)" "0 \<le> c" "srv_fds s c = None"
    using assms by (cases ev) (auto simp: survivable_def kernel_ok_def)
  then show ?thesis
  proof cases
    case intr
    then show ?thesis by (simp add: server_iteration_def)
  next
    case conn
    then have "(srv_fds s)(c \<mapsto> (), c := None) = srv_fds s" by (simp add: fun_upd_idem)
    with conn show ?thesis by (simp add: server_iteration_def xclose_open)
  qed
qed

lemma server_loop_ok:
  assumes "\<forall>ev \<in> set evs. kernel_ok (srv_fds s) ev \<and> survivable ev"
  shows "server_loop s evs = Inr (s\<lparr>spawned := spawned s @ connections evs\<rparr>)"
  using assms
proof (induction evs arbitrary: s)
  case Nil
  then show ?case by simp
next
  case (Cons ev evs)
  have "connections (ev # evs) = connections [ev] @ connections evs"
    by (cases ev rule: prod.exhaust; cases "fst ev"; cases "snd ev") auto
  with Cons show ?case by (simp add: server_iteration_ok)
qed

lemma client_reads:
  assumes "length argv = 3" and "0 \<le> fd" and "length (argv ! 2) < 2 ^ 63"
    and "\<forall>r \<in> set ws. retryable r" "length (argv ! 2) \<le> sum_list (map accepted ws)"
  shows "unix_calc_client argv (Inr fd) None ws (Avail bs) =
    Some (Inr (argv ! 2, cstring (take 255 bs)))"
proof -
  let ?l = "of_nat (length (argv ! 2)) :: size_t"
  have u: "unat ?l = length (argv ! 2)" using assms(3) by (intro unat_of_nat_size) simp
  obtain rs' where "write_all ws (argv ! 2) ?l = Some (sint ?l, argv ! 2, rs')"
    using write_all_returns [of ws ?l "argv ! 2"] assms(4,5) u by auto
  then have "write_all_socket ws (argv ! 2) ?l = Some (Inr (sint ?l, argv ! 2, rs'))"
    using assms(3) by (simp add: write_all_socket_ok sint_len)
  moreover have "terminate_at 256 (take 255 bs) (int (length (take 255 bs))) =
      Inr (cstring (take 255 bs))"
    by (rule terminate_at_ok) simp
  ultimately show ?thesis
    using assms(1,2) by (simp add: unix_calc_client_def xclose_open)
qed

subsection \<open>Properties\<close>

text \<open>
  C1: The evaluator always returns, and what it accepts is in the grammar: when it gives a value,
  the input is an expression of the grammar with exactly this (left-associative, usual precedence)
  value, followed by blanks only. The hypothesis is that \<open>strtod\<close> ends inside its string.
\<close>

theorem evaluate_accepts_only_grammar:
  assumes "strtod_bounds A" and "CHR 0x00 \<notin> set input"
  shows "\<exists>out. evaluate A input = Some out \<and>
    (\<forall>v. out = Inr v \<longrightarrow> (\<exists>u w. input = u @ w \<and> Expression A u v \<and> list_all isspace w))"
  using evaluate_returns [of A input] strtod_bounds.evaluate_grammar [OF assms(1) _ assms(2)]
  by fastforce

theorem evaluate_accepts_only_grammar_witness:
  "\<exists>out. evaluate rat_arith ''1 + 2'' = Some out \<and>
    (\<forall>v. out = Inr v \<longrightarrow>
       (\<exists>u w. ''1 + 2'' = u @ w \<and> Expression rat_arith u v \<and> list_all isspace w))"
  by (rule evaluate_accepts_only_grammar [OF rat.strtod_bounds_axioms]) simp

text \<open>
  C2: Printing an expression with parentheses only where precedence and left associativity need
  them and evaluating the text gives the value of the expression, for every arithmetic whose
  \<open>strtod\<close> reads back the printed numbers.
\<close>

theorem evaluate_round_trip:
  assumes "number_syntax A show_num printable" and "\<forall>x \<in> numbers e. printable x"
  shows "evaluate A (show_ast show_num 0 e) = Some (Inr (ast_val A e))"
  using number_syntax.evaluate_printed [OF assms, of "[]"] by (simp add: number_end_def)

theorem evaluate_round_trip_witness:
  "evaluate rat_arith ''12 * (3 + 4) - 5'' = Some (Inr 79)"
  using evaluate_round_trip [OF rat.number_syntax_axioms,
      of "Bin OpSub (Bin OpMul (Num 12) (Bin OpAdd (Num 3) (Num 4))) (Num 5)"]
  by (simp add: printable_rat_def show_rat_def fmt_simps rat_arith_def)

text \<open>
  C3: A request that evaluates is answered by exactly the reply line: with a process number that fits
  an \<open>int\<close> and a \<open>%.3f\<close> text of at most 314 characters (sign, 309 digits, point and three decimals
  of the largest double), the reply never fills the 512-byte buffer, so nothing is cut off or read
  outside it, for every way the kernel splits or interrupts the writes.
\<close>

theorem serve_sends_reply:
  assumes "0 \<le> pid" "pid \<le> INT_MAX" and "length (d_fmt3 A v) \<le> 314"
    and "bs \<noteq> []" "length bs < BUFFER_SIZE" and "evaluate A (cstring bs) = Some (Inr v)"
    and "\<forall>r \<in> set ws. retryable r" and "BUFFER_SIZE \<le> sum_list (map accepted ws)"
  shows "serve A pid (Avail bs) ws = Some (Inr (reply_text A pid v))
    \<and> length (reply_text A pid v) < BUFFER_SIZE"
proof -
  have "length (reply_text A pid v) < BUFFER_SIZE"
    using length_reply_text [OF assms(1-3)] by (simp add: BUFFER_SIZE_def)
  then show ?thesis using serve_reply [OF assms(4-6) _ assms(7,8)] by blast
qed

theorem serve_sends_reply_witness:
  "serve rat_arith 42 (Avail ''12 * (3 + 4) - 5'')
     [Accept 1, Fail EINTR, Accept 5, Accept 600] =
   Some (Inr (''pid=42 result=79.000'' @ [newline]))"
proof -
  have c: "cstring ''12 * (3 + 4) - 5'' = ''12 * (3 + 4) - 5''"
    by (rule cstring_id) simp
  have e: "evaluate rat_arith ''12 * (3 + 4) - 5'' = Some (Inr 79)"
    using number_syntax.evaluate_printed [OF rat.number_syntax_axioms,
        of "Bin OpSub (Bin OpMul (Num 12) (Bin OpAdd (Num 3) (Num 4))) (Num 5)" "[]"]
    by (simp add: printable_rat_def show_rat_def fmt_simps rat_arith_def)
  have f: "d_fmt3 rat_arith 79 = ''79.000''"
    by (simp add: rat_arith_def fmt3_rat_def fmt_simps)
  have "reply_text rat_arith 42 79 = ''pid=42 result=79.000'' @ [newline]"
    by (simp add: reply_text_def f fmt_simps)
  moreover have "serve rat_arith 42 (Avail ''12 * (3 + 4) - 5'')
     [Accept 1, Fail EINTR, Accept 5, Accept 600] = Some (Inr (reply_text rat_arith 42 79))"
    by (rule serve_sends_reply [THEN conjunct1])
      (simp_all add: c e f INT_MAX_def BUFFER_SIZE_def retryable_def)
  ultimately show ?thesis by simp
qed

text \<open>
  C4: From command line to printed answer: a client that sends a printed expression of at most 511
  bytes to a server child, and reads the child's reply of at most 255 bytes, sends the whole
  expression and prints the reply line with the value of the expression.
\<close>

theorem calc_exchange:
  assumes "number_syntax A show_num printable" and "\<forall>x \<in> numbers e. printable x"
    and "argv = [prog, path, show_ast show_num 0 e]"
    and "show_ast show_num 0 e \<noteq> []" "length (show_ast show_num 0 e) < BUFFER_SIZE"
    and "CHR 0x00 \<notin> set (show_ast show_num 0 e)"
    and "length (reply_text A pid (ast_val A e)) \<le> 255"
    and "CHR 0x00 \<notin> set (reply_text A pid (ast_val A e))"
    and "\<forall>r \<in> set ws. retryable r" "BUFFER_SIZE \<le> sum_list (map accepted ws)"
    and "0 \<le> fd"
  shows "serve A pid (Avail (show_ast show_num 0 e)) ws =
      Some (Inr (reply_text A pid (ast_val A e)))
    \<and> unix_calc_client argv (Inr fd) None ws (Avail (reply_text A pid (ast_val A e))) =
      Some (Inr (show_ast show_num 0 e, reply_text A pid (ast_val A e)))"
proof
  have "evaluate A (show_ast show_num 0 e) = Some (Inr (ast_val A e))"
    using number_syntax.evaluate_printed [OF assms(1,2), of "[]"] by (simp add: number_end_def)
  then show "serve A pid (Avail (show_ast show_num 0 e)) ws =
      Some (Inr (reply_text A pid (ast_val A e)))"
    using assms(4-10) by (intro serve_reply) (auto simp: cstring_id BUFFER_SIZE_def)
  have "unix_calc_client argv (Inr fd) None ws (Avail (reply_text A pid (ast_val A e))) =
      Some (Inr (argv ! 2, cstring (take 255 (reply_text A pid (ast_val A e)))))"
    using assms(3,5,9-11) by (intro client_reads) (auto simp: BUFFER_SIZE_def)
  then show "unix_calc_client argv (Inr fd) None ws (Avail (reply_text A pid (ast_val A e))) =
      Some (Inr (show_ast show_num 0 e, reply_text A pid (ast_val A e)))"
    using assms(3,7,8) by (simp add: cstring_id)
qed

theorem calc_exchange_witness:
  "serve rat_arith 7 (Avail ''1 + 2'') [Accept 600] = Some (Inr (''pid=7 result=3.000'' @ [newline]))
   \<and> unix_calc_client [''client'', ''/tmp/s'', ''1 + 2''] (Inr 3) None [Accept 600]
       (Avail (''pid=7 result=3.000'' @ [newline])) =
     Some (Inr (''1 + 2'', ''pid=7 result=3.000'' @ [newline]))"
proof -
  have f: "d_fmt3 rat_arith 3 = ''3.000''"
    by (simp add: rat_arith_def fmt3_rat_def fmt_simps)
  have v: "ast_val rat_arith (Bin OpAdd (Num 1) (Num 2)) = 3"
    by (simp add: rat_arith_def)
  have t: "show_ast show_rat 0 (Bin OpAdd (Num 1) (Num 2)) = ''1 + 2''"
    by (simp add: show_rat_def fmt_simps)
  have r: "reply_text rat_arith 7 3 = ''pid=7 result=3.000'' @ [newline]"
    by (simp add: reply_text_def f fmt_simps)
  from calc_exchange [OF rat.number_syntax_axioms, of "Bin OpAdd (Num 1) (Num 2)"
      "[''client'', ''/tmp/s'', ''1 + 2'']" "''client''" "''/tmp/s''" 7 "[Accept 600]" 3,
      unfolded v t r]
  show ?thesis
    by (simp add: printable_rat_def BUFFER_SIZE_def retryable_def newline_def)
qed


text \<open>
  C6: The accept loop leaks no descriptor and loses no connection: as long as the kernel hands out
  unused descriptors and no accept or fork fails (an accept interrupted by the \<open>SIGCHLD\<close> handler is
  retried), any number of iterations leaves the descriptor table of the server unchanged and starts
  exactly one child per accepted connection, in order.
\<close>

theorem server_loop_keeps_descriptors:
  assumes "\<forall>ev \<in> set evs. kernel_ok (srv_fds s) ev \<and> survivable ev"
  shows "\<exists>s'. server_loop s evs = Inr s' \<and> srv_fds s' = srv_fds s
    \<and> spawned s' = spawned s @ connections evs"
  using server_loop_ok [OF assms] by simp

theorem server_loop_keeps_descriptors_witness:
  "\<exists>s'. server_loop \<lparr>srv_fds = (\<lambda>fd. None)(3 \<mapsto> ()), spawned = []\<rparr>
       [(AcceptFd 4, Forked 100), (AcceptErr EINTR, Forked 0), (AcceptFd 4, Forked 101)] = Inr s'
     \<and> srv_fds s' = (\<lambda>fd. None)(3 \<mapsto> ())
     \<and> spawned s' = [(100, 4), (101, 4)]"
  using server_loop_keeps_descriptors
    [of "[(AcceptFd 4, Forked 100), (AcceptErr EINTR, Forked 0), (AcceptFd 4, Forked 101)]"
      "\<lparr>srv_fds = (\<lambda>fd. None)(3 \<mapsto> ()), spawned = []\<rparr>"]
  by (simp add: kernel_ok_def survivable_def)

text \<open>
  C7: With a path of 1 to 107 characters the server starts whatever an earlier run has left at its path, and it can be started
  again. A longer path is cut for \<open>bind\<close> and not for \<open>unlink\<close>: the server then listens under a name it does not announce, and
  the next start fails because this name exists.
\<close>

theorem calc_server_restarts:
  assumes "path \<noteq> []" and "length argv = 2" and "argv ! 1 = path"
  shows "(length path < SUN_PATH_SIZE \<longrightarrow>
        calc_server_setup argv names (Inr fd) None None
        = (Inr (\<lparr>srv_fds = (\<lambda>fd. None)(fd \<mapsto> ()), spawned = []\<rparr>, path,
                ''unix_calc_server listening on '' @ path @ [newline]), path # removeAll path names))
    \<and> (SUN_PATH_SIZE \<le> length path \<and> take (SUN_PATH_SIZE - 1) path \<notin> set names \<longrightarrow>
        (\<exists>s names'. calc_server_setup argv names (Inr fd) None None
           = (Inr (s, take (SUN_PATH_SIZE - 1) path, ''unix_calc_server listening on '' @ path @ [newline]), names')
         \<and> fst (calc_server_setup argv names' (Inr fd) bind_res None)
             = Inl (die_errno ''bind/listen'' EADDRINUSE)))"
proof (cases "length path < SUN_PATH_SIZE")
  case True
  then show ?thesis
    using assms by (simp add: calc_server_setup_def snprintf_fits Let_def)
next
  case False
  let ?cut = "take (SUN_PATH_SIZE - 1) path"
  have ne: "?cut \<noteq> path" "?cut \<noteq> []"
    using False assms(1) arg_cong [of ?cut path length] by (auto simp: SUN_PATH_SIZE_def)
  have "fst (snprintf SUN_PATH_SIZE path) = ?cut"
    using False by (simp add: snprintf_def)
  then show ?thesis
    using assms False ne by (auto simp: calc_server_setup_def Let_def)
qed

theorem calc_server_restarts_witness:
  "calc_server_setup [''server'', ''/tmp/s''] [''/tmp/s'', ''/tmp/t''] (Inr 3) None None
     = (Inr (\<lparr>srv_fds = (\<lambda>fd. None)(3 \<mapsto> ()), spawned = []\<rparr>, ''/tmp/s'',
             ''unix_calc_server listening on /tmp/s'' @ [newline]), [''/tmp/s'', ''/tmp/t''])"
  using calc_server_restarts [of "''/tmp/s''" "[''server'', ''/tmp/s'']" "[''/tmp/s'', ''/tmp/t'']" 3 None]
  by (simp add: SUN_PATH_SIZE_def)

end
