(* ===== verification/Guarded.thy ===== *)
theory Guarded
  imports Common
begin

text \<open>
  The programs in which a parent forks children that increment a shared counter under a lock,
  reaps them and prints the counter. The lock and the numbers are parameters, collected in the
  record \<open>guarded\<close>; \<open>guarded_nxt\<close> is the step function of the whole program. The increment is a
  load and a store, so that without exclusion updates can be lost. Two interfaces describe what the
  lock must promise: \<open>exclusive_lock\<close> for the lock and \<open>guarded_live\<close> for termination.
\<close>

subsection \<open>Programs and states\<close>

text \<open>
  \<open>g_acquire\<close> and \<open>g_release\<close> are the calls of child \<open>i\<close> (\<open>None\<close>: the call blocks), \<open>g_exit\<close> is what
  the kernel does to the lock when a process exits, \<open>g_fails\<close> the error numbers for which the
  program exits with \<open>g_die\<close>, and \<open>g_line\<close> is the line printed at the end.
\<close>

record 'l guarded =
  g_acquire :: "nat \<Rightarrow> 'l \<Rightarrow> 'l option"
  g_release :: "nat \<Rightarrow> 'l \<Rightarrow> 'l"
  g_exit :: "nat \<Rightarrow> 'l \<Rightarrow> 'l"
  g_fails :: "errno \<Rightarrow> bool"
  g_die :: "errno \<Rightarrow> halt"
  g_kids :: nat
  g_iters :: nat
  g_inc :: int
  g_line :: "int \<Rightarrow> string"

text \<open>
  A child is in its loop with loop variable \<open>j\<close>, or it has ended after \<open>c\<close> stores to the counter.
\<close>

datatype kid =
    Unborn
  | AtLock nat
  | AtLoad nat
  | AtStore nat int
  | AtUnlock nat
  | AtExit halt nat
  | Zombie halt nat
  | Reaped halt nat

datatype parent = Forking nat | Reaping | Printing | Removing | Gone

record 'l counter_sys =
  lk :: 'l
  cell :: int
  kids :: "nat \<Rightarrow> kid"
  parent :: parent
  g_out :: string
  object :: bool \<comment> \<open>the file or shared memory object still exists\<close>

subsection \<open>Steps\<close>

definition kid_loop :: "'l guarded \<Rightarrow> nat \<Rightarrow> kid" where
  "kid_loop P j = (if j < g_iters P then AtLock j else AtExit (Exit 0 []) j)"

definition fork_loop :: "'l guarded \<Rightarrow> nat \<Rightarrow> parent" where
  "fork_loop P i = (if i < g_kids P then Forking i else Reaping)"

definition set_kid :: "nat \<Rightarrow> kid \<Rightarrow> 'l counter_sys \<Rightarrow> 'l counter_sys" where
  "set_kid i k s = s\<lparr>kids := (kids s)(i := k)\<rparr>"

text \<open>One step of a child: lock, load, store, unlock, and the exit of the process.\<close>

definition kid_step :: "'l guarded \<Rightarrow> nat \<Rightarrow> 'l counter_sys \<Rightarrow> 'l counter_sys option" where
  "kid_step P i s =
     (case kids s i of
        AtLock j \<Rightarrow>
          (case g_acquire P i (lk s) of
             None \<Rightarrow> None
           | Some l \<Rightarrow> Some (set_kid i (AtLoad j) (s\<lparr>lk := l\<rparr>)))
      | AtLoad j \<Rightarrow> Some (set_kid i (AtStore j (cell s)) s)
      | AtStore j t \<Rightarrow> Some (set_kid i (AtUnlock j) (s\<lparr>cell := t + g_inc P\<rparr>))
      | AtUnlock j \<Rightarrow> Some (set_kid i (kid_loop P (j + 1)) (s\<lparr>lk := g_release P i (lk s)\<rparr>))
      | AtExit h c \<Rightarrow> Some (set_kid i (Zombie h c) (s\<lparr>lk := g_exit P i (lk s)\<rparr>))
      | _ \<Rightarrow> None)"

text \<open>A lock or unlock call that fails makes the child exit.\<close>

definition kid_fails :: "'l guarded \<Rightarrow> nat \<Rightarrow> errno \<Rightarrow> 'l counter_sys \<Rightarrow> 'l counter_sys option" where
  "kid_fails P i e s =
     (if \<not> g_fails P e then None
      else
        (case kids s i of
           AtLock j \<Rightarrow> Some (set_kid i (AtExit (g_die P e) j) s)
         | AtUnlock j \<Rightarrow> Some (set_kid i (AtExit (g_die P e) (j + 1)) s)
         | _ \<Rightarrow> None))"

text \<open>
  The parent forks in a loop that ignores failures; \<open>reap_all_children\<close> waits for any child until
  there is none; then the counter is printed and the object removed.
\<close>

fun gone :: "kid \<Rightarrow> bool" where
  "gone Unborn = True"
| "gone (Reaped h c) = True"
| "gone k = False"

definition parent_step :: "'l guarded \<Rightarrow> 'l counter_sys \<Rightarrow> 'l counter_sys option" where
  "parent_step P s =
     (case parent s of
        Forking i \<Rightarrow> Some (set_kid i (kid_loop P 0) (s\<lparr>parent := fork_loop P (i + 1)\<rparr>))
      | Reaping \<Rightarrow>
          (if \<forall>i \<in> set [0..<g_kids P]. gone (kids s i) then Some (s\<lparr>parent := Printing\<rparr>) else None)
      | Printing \<Rightarrow> Some (s\<lparr>g_out := g_out s @ g_line P (cell s), parent := Removing\<rparr>)
      | Removing \<Rightarrow> Some (s\<lparr>object := False, parent := Gone\<rparr>)
      | Gone \<Rightarrow> None)"

definition fork_fails :: "'l guarded \<Rightarrow> 'l counter_sys \<Rightarrow> 'l counter_sys option" where
  "fork_fails P s =
     (case parent s of
        Forking i \<Rightarrow> Some (s\<lparr>parent := fork_loop P (i + 1)\<rparr>)
      | _ \<Rightarrow> None)"

definition reap_kid :: "nat \<Rightarrow> 'l counter_sys \<Rightarrow> 'l counter_sys option" where
  "reap_kid i s =
     (case (parent s, kids s i) of
        (Reaping, Zombie h c) \<Rightarrow> Some (set_kid i (Reaped h c) s)
      | _ \<Rightarrow> None)"

datatype guarded_act = Parent | ForkFails | Kid nat | KidFails nat errno | Reap nat

fun guarded_nxt :: "'l guarded \<Rightarrow> guarded_act \<Rightarrow> 'l counter_sys \<Rightarrow> 'l counter_sys option" where
  "guarded_nxt P Parent s = parent_step P s"
| "guarded_nxt P ForkFails s = fork_fails P s"
| "guarded_nxt P (Kid i) s = kid_step P i s"
| "guarded_nxt P (KidFails i e) s = kid_fails P i e s"
| "guarded_nxt P (Reap i) s = reap_kid i s"

definition guarded_start :: "'l guarded \<Rightarrow> 'l \<Rightarrow> 'l counter_sys" where
  "guarded_start P l = \<lparr>lk = l, cell = 0, kids = (\<lambda>i. Unborn), parent = fork_loop P 0, g_out = [],
     object = True\<rparr>"

text \<open>Runs in which every fork and every lock call succeeds.\<close>

fun clean :: "guarded_act \<Rightarrow> bool" where
  "clean ForkFails = False"
| "clean (KidFails i e) = False"
| "clean a = True"

subsection \<open>Counting stores\<close>

fun stores :: "kid \<Rightarrow> nat" where
  "stores Unborn = 0"
| "stores (AtLock j) = j"
| "stores (AtLoad j) = j"
| "stores (AtStore j t) = j"
| "stores (AtUnlock j) = j + 1"
| "stores (AtExit h c) = c"
| "stores (Zombie h c) = c"
| "stores (Reaped h c) = c"

fun inside :: "kid \<Rightarrow> bool" where
  "inside (AtLoad j) = True"
| "inside (AtStore j t) = True"
| "inside (AtUnlock j) = True"
| "inside k = False"

definition all_stores :: "'l guarded \<Rightarrow> 'l counter_sys \<Rightarrow> nat" where
  "all_stores P s = (\<Sum>i<g_kids P. stores (kids s i))"

subsection \<open>The moves\<close>

lemma kid_stepE:
  assumes "kid_step P i s = Some t"
  obtains
    (lock) j l where "kids s i = AtLock j" "g_acquire P i (lk s) = Some l"
      "t = set_kid i (AtLoad j) (s\<lparr>lk := l\<rparr>)"
  | (load) j where "kids s i = AtLoad j" "t = set_kid i (AtStore j (cell s)) s"
  | (store) j x where "kids s i = AtStore j x" "t = set_kid i (AtUnlock j) (s\<lparr>cell := x + g_inc P\<rparr>)"
  | (unlock) j where "kids s i = AtUnlock j"
      "t = set_kid i (kid_loop P (j + 1)) (s\<lparr>lk := g_release P i (lk s)\<rparr>)"
  | (exit) h c where "kids s i = AtExit h c"
      "t = set_kid i (Zombie h c) (s\<lparr>lk := g_exit P i (lk s)\<rparr>)"
proof (cases "kids s i")
  case (AtLock j)
  with assms obtain l where "g_acquire P i (lk s) = Some l" "t = set_kid i (AtLoad j) (s\<lparr>lk := l\<rparr>)"
    by (auto simp: kid_step_def split: option.splits)
  with lock [OF AtLock] show thesis by blast
next
  case (AtLoad j)
  with assms have "t = set_kid i (AtStore j (cell s)) s" by (simp add: kid_step_def)
  with load [OF AtLoad] show thesis by blast
next
  case (AtStore j x)
  with assms have "t = set_kid i (AtUnlock j) (s\<lparr>cell := x + g_inc P\<rparr>)" by (simp add: kid_step_def)
  with store [OF AtStore] show thesis by blast
next
  case (AtUnlock j)
  with assms have "t = set_kid i (kid_loop P (j + 1)) (s\<lparr>lk := g_release P i (lk s)\<rparr>)"
    by (simp add: kid_step_def)
  with unlock [OF AtUnlock] show thesis by blast
next
  case (AtExit h c)
  with assms have "t = set_kid i (Zombie h c) (s\<lparr>lk := g_exit P i (lk s)\<rparr>)" by (simp add: kid_step_def)
  with exit [OF AtExit] show thesis by blast
next
  case Unborn
  with assms have False by (simp add: kid_step_def)
  then show thesis ..
next
  case (Zombie h c)
  with assms have False by (simp add: kid_step_def)
  then show thesis ..
next
  case (Reaped h c)
  with assms have False by (simp add: kid_step_def)
  then show thesis ..
qed

lemma guarded_nxtE:
  assumes "guarded_nxt P a s = Some t"
  obtains
    (fork) i where "a = Parent" "parent s = Forking i"
      "t = set_kid i (kid_loop P 0) (s\<lparr>parent := fork_loop P (i + 1)\<rparr>)"
  | (nofork) i where "a = ForkFails" "parent s = Forking i" "t = s\<lparr>parent := fork_loop P (i + 1)\<rparr>"
  | (reaped) "a = Parent" "parent s = Reaping" "\<forall>i<g_kids P. gone (kids s i)" "t = s\<lparr>parent := Printing\<rparr>"
  | (print) "a = Parent" "parent s = Printing"
      "t = s\<lparr>g_out := g_out s @ g_line P (cell s), parent := Removing\<rparr>"
  | (remove) "a = Parent" "parent s = Removing" "t = s\<lparr>object := False, parent := Gone\<rparr>"
  | (lock) i j l where "a = Kid i" "kids s i = AtLock j" "g_acquire P i (lk s) = Some l"
      "t = set_kid i (AtLoad j) (s\<lparr>lk := l\<rparr>)"
  | (load) i j where "a = Kid i" "kids s i = AtLoad j" "t = set_kid i (AtStore j (cell s)) s"
  | (store) i j x where "a = Kid i" "kids s i = AtStore j x"
      "t = set_kid i (AtUnlock j) (s\<lparr>cell := x + g_inc P\<rparr>)"
  | (unlock) i j where "a = Kid i" "kids s i = AtUnlock j"
      "t = set_kid i (kid_loop P (j + 1)) (s\<lparr>lk := g_release P i (lk s)\<rparr>)"
  | (exit) i h c where "a = Kid i" "kids s i = AtExit h c"
      "t = set_kid i (Zombie h c) (s\<lparr>lk := g_exit P i (lk s)\<rparr>)"
  | (failure) i e h c where "a = KidFails i e" "g_fails P e"
      "kids s i = AtLock c \<or> (\<exists>j. kids s i = AtUnlock j \<and> c = j + 1)"
      "t = set_kid i (AtExit h c) s"
  | (reap) i h c where "a = Reap i" "parent s = Reaping" "kids s i = Zombie h c"
      "t = set_kid i (Reaped h c) s"
proof (cases a)
  case Parent
  with assms have "parent_step P s = Some t" by simp
  then show thesis
    using fork [OF Parent] reaped [OF Parent] print [OF Parent] remove [OF Parent]
    unfolding parent_step_def
    by (cases "parent s") (simp_all split: if_splits)
next
  case ForkFails
  with assms obtain i where "parent s = Forking i" "t = s\<lparr>parent := fork_loop P (i + 1)\<rparr>"
    by (auto simp: fork_fails_def split: parent.splits)
  with nofork [OF ForkFails] show thesis by blast
next
  case (Kid i)
  with assms have "kid_step P i s = Some t" by simp
  then show thesis
    by (cases rule: kid_stepE) (fact lock [OF Kid] load [OF Kid] store [OF Kid] unlock [OF Kid] exit [OF Kid])+
next
  case (KidFails i e)
  with assms have "kid_fails P i e s = Some t" by simp
  then have "g_fails P e"
    and "\<exists>c. (kids s i = AtLock c \<or> (\<exists>j. kids s i = AtUnlock j \<and> c = j + 1))
          \<and> t = set_kid i (AtExit (g_die P e) c) s"
    by (auto simp: kid_fails_def split: if_splits kid.splits)
  with failure [OF KidFails] show thesis by blast
next
  case (Reap i)
  with assms have "parent s = Reaping" "\<exists>h c. kids s i = Zombie h c \<and> t = set_kid i (Reaped h c) s"
    by (auto simp: reap_kid_def split: parent.splits kid.splits)
  with reap [OF Reap] show thesis by blast
qed

subsection \<open>What holds for every lock\<close>

fun kid_ok :: "nat \<Rightarrow> kid \<Rightarrow> bool" where
  "kid_ok n Unborn = True"
| "kid_ok n (AtLock j) = (j < n)"
| "kid_ok n (AtLoad j) = (j < n)"
| "kid_ok n (AtStore j t) = (j < n)"
| "kid_ok n (AtUnlock j) = (j < n)"
| "kid_ok n (AtExit h c) = (c \<le> n)"
| "kid_ok n (Zombie h c) = (c \<le> n)"
| "kid_ok n (Reaped h c) = (c \<le> n)"

definition guarded_shape :: "'l guarded \<Rightarrow> 'l counter_sys \<Rightarrow> bool" where
  "guarded_shape P s \<longleftrightarrow> (\<forall>i. kid_ok (g_iters P) (kids s i)) \<and> (\<forall>i \<ge> g_kids P. kids s i = Unborn)
     \<and> (\<forall>n. parent s = Forking n \<longrightarrow> n < g_kids P \<and> (\<forall>i \<ge> n. kids s i = Unborn))
     \<and> (parent s \<in> {Printing, Removing, Gone} \<longrightarrow> (\<forall>i < g_kids P. gone (kids s i)))"

lemma kid_ok_loop [simp]: "j \<le> g_iters P \<Longrightarrow> kid_ok (g_iters P) (kid_loop P j)"
  by (simp add: kid_loop_def)

lemma fork_loop_simps [simp]:
  "fork_loop P i = Forking n \<longleftrightarrow> n = i \<and> i < g_kids P"
  "fork_loop P i \<noteq> Printing" "fork_loop P i \<noteq> Removing" "fork_loop P i \<noteq> Gone"
  by (auto simp: fork_loop_def)

lemma set_kid_simps [simp]:
  "lk (set_kid i k s) = lk s" "cell (set_kid i k s) = cell s" "parent (set_kid i k s) = parent s"
  "g_out (set_kid i k s) = g_out s" "object (set_kid i k s) = object s"
  "kids (set_kid i k s) = (kids s)(i := k)"
  by (simp_all add: set_kid_def)

lemma guarded_shape_set_kid:
  assumes sh: "guarded_shape P s" and i: "\<not> gone (kids s i)" and k: "kid_ok (g_iters P) k"
    and t: "kids t = (kids s)(i := k)" "parent t = parent s"
  shows "guarded_shape P t"
proof -
  have u: "kids s i \<noteq> Unborn" using i by auto
  have "i < g_kids P" using sh u by (metis guarded_shape_def not_le)
  moreover have "i < n" if "parent s = Forking n" for n
    using sh u that by (metis guarded_shape_def not_le)
  moreover have "parent s \<notin> {Printing, Removing, Gone}"
    using sh i \<open>i < g_kids P\<close> by (auto simp: guarded_shape_def)
  ultimately show ?thesis
    using sh k unfolding guarded_shape_def t by auto
qed

lemma guarded_shape_step:
  assumes sh: "guarded_shape P s" and step: "guarded_nxt P a s = Some t"
  shows "guarded_shape P t"
proof -
  have ok: "kid_ok (g_iters P) (kids s i)" for i using sh by (simp add: guarded_shape_def)
  note keep = guarded_shape_set_kid [OF sh]
  from step show ?thesis
  proof (cases rule: guarded_nxtE)
    case (lock i j l)
    then show ?thesis using ok [of i] by (intro keep [of i "AtLoad j"]) simp_all
  next
    case (load i j)
    then show ?thesis using ok [of i] by (intro keep [of i "AtStore j (cell s)"]) simp_all
  next
    case (store i j x)
    then show ?thesis using ok [of i] by (intro keep [of i "AtUnlock j"]) simp_all
  next
    case (unlock i j)
    then show ?thesis using ok [of i] by (intro keep [of i "kid_loop P (j + 1)"]) simp_all
  next
    case (exit i h c)
    then show ?thesis using ok [of i] by (intro keep [of i "Zombie h c"]) simp_all
  next
    case (failure i e h c)
    then show ?thesis using ok [of i] by (intro keep [of i "AtExit h c"]) auto
  next
    case (reap i h c)
    then show ?thesis using ok [of i] by (intro keep [of i "Reaped h c"]) simp_all
  qed (use sh in \<open>auto simp: guarded_shape_def\<close>)
qed

subsection \<open>Termination\<close>

fun kid_rank :: "nat \<Rightarrow> kid \<Rightarrow> nat" where
  "kid_rank n Unborn = 4 * n + 4"
| "kid_rank n (AtLock j) = 4 * (n - j) + 3"
| "kid_rank n (AtLoad j) = 4 * (n - j) + 2"
| "kid_rank n (AtStore j t) = 4 * (n - j) + 1"
| "kid_rank n (AtUnlock j) = 4 * (n - j)"
| "kid_rank n (AtExit h c) = 2"
| "kid_rank n (Zombie h c) = 1"
| "kid_rank n (Reaped h c) = 0"

fun parent_rank :: "nat \<Rightarrow> parent \<Rightarrow> nat" where
  "parent_rank n (Forking i) = n - i + 3"
| "parent_rank n Reaping = 3"
| "parent_rank n Printing = 2"
| "parent_rank n Removing = 1"
| "parent_rank n Gone = 0"

definition guarded_msr :: "'l guarded \<Rightarrow> 'l counter_sys \<Rightarrow> nat" where
  "guarded_msr P s =
     parent_rank (g_kids P) (parent s) + (\<Sum>i<g_kids P. kid_rank (g_iters P) (kids s i))"

lemma kid_rank_loop: "j < g_iters P \<Longrightarrow> kid_rank (g_iters P) (kid_loop P (Suc j)) < 4 * (g_iters P - j)"
  by (auto simp: kid_loop_def)

lemma kid_rank_born: "kid_rank (g_iters P) (kid_loop P 0) < 4 * g_iters P + 4"
  by (auto simp: kid_loop_def)

lemma guarded_msr_set_kid:
  assumes "i < g_kids P" and "kid_rank (g_iters P) k < kid_rank (g_iters P) (kids s i)"
    and "kids t = (kids s)(i := k)"
    and "parent_rank (g_kids P) (parent t) \<le> parent_rank (g_kids P) (parent s)"
  shows "guarded_msr P t < guarded_msr P s"
proof -
  have "(\<Sum>n<g_kids P. kid_rank (g_iters P) (kids t n)) < (\<Sum>n<g_kids P. kid_rank (g_iters P) (kids s n))"
    using assms(1,2) by (intro sum_upd_less [of i]) (simp_all add: assms(3))
  with assms(4) show ?thesis by (simp add: guarded_msr_def)
qed

lemma fork_loop_rank: "i < g_kids P \<Longrightarrow>
    parent_rank (g_kids P) (fork_loop P (Suc i)) < parent_rank (g_kids P) (Forking i)"
  by (auto simp: fork_loop_def)

lemma guarded_shape_kid: "guarded_shape P s \<Longrightarrow> kids s i \<noteq> Unborn \<Longrightarrow> i < g_kids P"
  by (metis guarded_shape_def not_le)

lemma guarded_decreases:
  assumes sh: "guarded_shape P s" and step: "guarded_nxt P a s = Some t"
  shows "guarded_msr P t < guarded_msr P s"
proof -
  have ok: "kid_ok (g_iters P) (kids s i)" for i using sh by (simp add: guarded_shape_def)
  have lt: "i < g_kids P" if "kids s i \<noteq> Unborn" for i
    using guarded_shape_kid [OF sh that] .
  note upd = guarded_msr_set_kid
  from step show ?thesis
  proof (cases rule: guarded_nxtE)
    case (fork i)
    then have "i < g_kids P" and "kids s i = Unborn" using sh by (auto simp: guarded_shape_def)
    with fork show ?thesis
      using kid_rank_born [of P] fork_loop_rank [of i P] by (intro upd [of i _ "kid_loop P 0"]) simp_all
  next
    case (nofork i)
    then have "i < g_kids P" using sh by (auto simp: guarded_shape_def)
    with nofork fork_loop_rank [of i P] show ?thesis by (simp add: guarded_msr_def)
  next
    case (lock i j l)
    with lt show ?thesis by (intro upd [of i _ "AtLoad j"]) simp_all
  next
    case (load i j)
    with lt show ?thesis by (intro upd [of i _ "AtStore j (cell s)"]) simp_all
  next
    case (store i j x)
    with lt show ?thesis by (intro upd [of i _ "AtUnlock j"]) simp_all
  next
    case (unlock i j)
    with lt ok [of i] kid_rank_loop [of j P] show ?thesis
      by (intro upd [of i _ "kid_loop P (j + 1)"]) simp_all
  next
    case (exit i h c)
    with lt show ?thesis by (intro upd [of i _ "Zombie h c"]) simp_all
  next
    case (failure i e h c)
    with lt ok [of i] show ?thesis by (intro upd [of i _ "AtExit h c"]) auto
  next
    case (reap i h c)
    with lt show ?thesis by (intro upd [of i _ "Reaped h c"]) simp_all
  qed (simp_all add: guarded_msr_def)
qed

subsection \<open>Interfaces\<close>

text \<open>
  A program under one of its invariants: if every blocked child waits for another that is inside
  its critical section or about to exit, the program ends, whatever the lock does otherwise.
\<close>

definition busy :: "kid \<Rightarrow> bool" where
  "busy k \<longleftrightarrow> inside k \<or> (\<exists>h c. k = AtExit h c)"

lemma busy_moves: "busy (kids s i) \<Longrightarrow> \<exists>t. guarded_nxt P (Kid i) s = Some t"
  by (cases "kids s i") (auto simp: busy_def kid_step_def)

definition guarded_done :: "'l counter_sys \<Rightarrow> bool" where
  "guarded_done s \<longleftrightarrow> parent s = Gone"

locale guarded_live =
  fixes P :: "'l guarded"
    and ok :: "guarded_act \<Rightarrow> bool"
    and init :: "'l counter_sys"
    and inv :: "'l counter_sys \<Rightarrow> bool"
  assumes live_ok: "ok Parent" "ok (Kid i)" "ok (Reap i)"
    and live_init: "inv init"
    and live_step: "inv s \<Longrightarrow> only ok (guarded_nxt P) a s = Some t \<Longrightarrow> inv t"
    and live_shape: "inv s \<Longrightarrow> guarded_shape P s"
    and live_grant: "inv s \<Longrightarrow> kids s i = AtLock j \<Longrightarrow> g_acquire P i (lk s) = None \<Longrightarrow>
      \<exists>q. busy (kids s q)"
begin

lemma busy_progress: "busy (kids s q) \<Longrightarrow> \<exists>a t. only ok (guarded_nxt P) a s = Some t"
  using busy_moves [of s q P] live_ok(2) by (metis only_def)

lemma kid_progress:
  assumes "inv s" and "parent s = Reaping" and "\<not> gone (kids s i)"
  shows "\<exists>a t. only ok (guarded_nxt P) a s = Some t"
proof (cases "kids s i")
  case (AtLock j)
  show ?thesis
  proof (cases "g_acquire P i (lk s)")
    case None
    then obtain q where "busy (kids s q)" using live_grant [OF assms(1) AtLock] by blast
    then show ?thesis by (rule busy_progress)
  next
    case (Some l)
    then have "guarded_nxt P (Kid i) s = Some (set_kid i (AtLoad j) (s\<lparr>lk := l\<rparr>))"
      using AtLock by (simp add: kid_step_def)
    then show ?thesis using live_ok(2) by (metis only_def)
  qed
next
  case (Zombie h c)
  then have "guarded_nxt P (Reap i) s = Some (set_kid i (Reaped h c) s)"
    using assms(2) by (simp add: reap_kid_def)
  then show ?thesis using live_ok(3) by (metis only_def)
qed (use assms(3) busy_progress [of s i] in \<open>simp_all add: busy_def\<close>)

lemma live_progress:
  assumes "inv s" and "\<not> guarded_done s"
  shows "\<exists>a t. only ok (guarded_nxt P) a s = Some t"
proof (cases "parent s = Reaping \<and> (\<exists>i<g_kids P. \<not> gone (kids s i))")
  case True
  then show ?thesis using kid_progress [OF assms(1)] by blast
next
  case False
  then have "\<exists>t. guarded_nxt P Parent s = Some t"
    using assms(2) by (cases "parent s") (auto simp: parent_step_def guarded_done_def)
  then show ?thesis using live_ok(1) by (metis only_def)
qed

end

sublocale guarded_live \<subseteq> sys: terminating_system "only ok (guarded_nxt P)" init inv "guarded_msr P" guarded_done
proof unfold_locales
  show "guarded_msr P t < guarded_msr P s" if "inv s" and "only ok (guarded_nxt P) a s = Some t" for s a t
    using guarded_decreases [OF live_shape [OF that(1)]] that(2)
    by (auto simp: only_def split: if_splits)
qed (fact live_init live_step live_progress)+


text \<open>
  A lock that excludes: at most one process holds it, a call that is granted makes the caller the
  holder, releasing it leaves no holder, and so does the exit of a process, unless the program
  never exits with the lock held.
\<close>

locale exclusive_lock =
  fixes acquire :: "nat \<Rightarrow> 'l \<Rightarrow> 'l option"
    and release lexit :: "nat \<Rightarrow> 'l \<Rightarrow> 'l"
    and may_fail :: bool
    and holds :: "nat \<Rightarrow> 'l \<Rightarrow> bool"
    and linv :: "'l \<Rightarrow> bool"
  assumes acquired: "linv l \<Longrightarrow> acquire p l = Some m \<Longrightarrow> linv m \<and> (\<forall>q. holds q m \<longleftrightarrow> q = p)"
    and exclusive: "linv l \<Longrightarrow> holds q l \<Longrightarrow> holds p l \<Longrightarrow> p = q"
    and granted: "linv l \<Longrightarrow> acquire p l = Some m \<Longrightarrow> holds q l \<Longrightarrow> q = p"
    and blocked: "linv l \<Longrightarrow> acquire p l = None \<Longrightarrow> \<exists>q. holds q l"
    and released: "linv l \<Longrightarrow> holds p l \<Longrightarrow> linv (release p l) \<and> (\<forall>q. \<not> holds q (release p l))"
    and exited: "linv l \<Longrightarrow> may_fail \<or> \<not> holds p l \<Longrightarrow>
      linv (lexit p l) \<and> (\<forall>q. holds q (lexit p l) \<longleftrightarrow> holds q l \<and> q \<noteq> p)"

locale guarded_counter =
  fixes P :: "'l guarded"
    and l0 :: 'l
    and holds :: "nat \<Rightarrow> 'l \<Rightarrow> bool"
    and linv :: "'l \<Rightarrow> bool"
  assumes lock_laws: "exclusive_lock (g_acquire P) (g_release P) (g_exit P) (\<exists>e. g_fails P e) holds linv"
    and start_free: "linv l0" "\<not> holds p l0"

sublocale guarded_counter \<subseteq> lck: exclusive_lock "g_acquire P" "g_release P" "g_exit P" "\<exists>e. g_fails P e" holds linv
  by (rule lock_laws)

context guarded_counter
begin

text \<open>
  The children inside their critical section hold the lock, the value a child has loaded is the
  value of the counter, and the counter is the number of stores times the increment.
\<close>

definition counter_inv :: "'l counter_sys \<Rightarrow> bool" where
  "counter_inv s \<longleftrightarrow> guarded_shape P s \<and> linv (lk s)
     \<and> (\<forall>i. inside (kids s i) \<longrightarrow> holds i (lk s))
     \<and> (\<forall>i. holds i (lk s) \<longrightarrow> busy (kids s i))
     \<and> (\<forall>i. holds i (lk s) \<and> \<not> inside (kids s i) \<longrightarrow> (\<exists>e. g_fails P e))
     \<and> (\<forall>i j x. kids s i = AtStore j x \<longrightarrow> x = cell s)
     \<and> cell s = g_inc P * int (all_stores P s)"

lemma counter_inv_start: "counter_inv (guarded_start P l0)"
  using start_free
  by (auto simp: counter_inv_def guarded_start_def guarded_shape_def all_stores_def busy_def)

end

subsection \<open>The counter under an exclusive lock\<close>

lemma all_stores_set_kid:
  assumes "i < g_kids P" and "kids t = (kids s)(i := k)"
  shows "all_stores P t + stores (kids s i) = all_stores P s + stores k"
  using sum_upd_nat [of i "g_kids P" "\<lambda>n. stores (kids t n)" "\<lambda>n. stores (kids s n)"] assms
  by (simp add: all_stores_def)

lemma stores_loop [simp]: "stores (kid_loop P j) = j" "\<not> inside (kid_loop P j)"
  "kid_loop P j \<noteq> AtStore n x"
  by (simp_all add: kid_loop_def)

lemma all_stores_same:
  assumes "kids t = (kids s)(i := k)" and "stores k = stores (kids s i)"
  shows "all_stores P t = all_stores P s"
  using assms by (auto simp: all_stores_def intro: sum.cong)

context guarded_counter
begin

text \<open>A move of child \<open>i\<close> that leaves the lock and the counter alone.\<close>

lemma counter_inv_kid:
  assumes inv: "counter_inv s" and sh: "guarded_shape P t"
    and t: "kids t = (kids s)(i := k)" "lk t = lk s" "cell t = cell s"
    and k: "stores k = stores (kids s i)" "inside k \<Longrightarrow> inside (kids s i)"
      "holds i (lk s) \<Longrightarrow> busy k" "holds i (lk s) \<Longrightarrow> inside k \<or> (\<exists>e. g_fails P e)"
      "\<And>j x. k = AtStore j x \<Longrightarrow> x = cell s"
  shows "counter_inv t"
  using inv sh k all_stores_same [OF t(1) k(1)] unfolding counter_inv_def t by auto

lemma counter_inv_frame:
  assumes "counter_inv s" and "guarded_shape P t" and "kids t = kids s" "lk t = lk s" "cell t = cell s"
  shows "counter_inv t"
  using assms(1,2) unfolding counter_inv_def all_stores_def assms(3-5) by auto

lemma counter_inv_lock:
  assumes inv: "counter_inv s" and sh: "guarded_shape P t" and i: "kids s i = AtLock j"
    and l: "g_acquire P i (lk s) = Some l" and t: "t = set_kid i (AtLoad j) (s\<lparr>lk := l\<rparr>)"
  shows "counter_inv t"
proof -
  have li: "linv (lk s)" using inv by (simp add: counter_inv_def)
  have new: "linv l" "\<And>q. holds q l \<longleftrightarrow> q = i" using lck.acquired [OF li l] by auto
  have none: "\<not> inside (kids s q)" for q
    using lck.granted [OF li l, of q] inv i by (auto simp: counter_inv_def)
  have st: "all_stores P t = all_stores P s"
    by (rule all_stores_same [of _ _ i "AtLoad j"]) (simp_all add: t i)
  show ?thesis
    using inv sh st new none unfolding counter_inv_def t
    by (auto simp: busy_def)
qed

lemma counter_inv_store:
  assumes inv: "counter_inv s" and sh: "guarded_shape P t" and i: "kids s i = AtStore j x"
    and t: "t = set_kid i (AtUnlock j) (s\<lparr>cell := x + g_inc P\<rparr>)"
  shows "counter_inv t"
proof -
  have x: "x = cell s" and h: "holds i (lk s)" and li: "linv (lk s)"
    using inv i by (auto simp: counter_inv_def)
  have other: "\<not> inside (kids s q)" if "q \<noteq> i" for q
    using lck.exclusive [OF li h] inv that by (auto simp: counter_inv_def)
  have "i < g_kids P" using inv i by (intro guarded_shape_kid) (auto simp: counter_inv_def)
  then have st: "all_stores P t = Suc (all_stores P s)"
    using all_stores_set_kid [of i P t s "AtUnlock j"] by (simp add: t i)
  have "cell s = g_inc P * int (all_stores P s)" using inv by (simp add: counter_inv_def)
  then have "cell t = g_inc P * int (all_stores P t)"
    unfolding st by (simp add: t x distrib_left)
  then show ?thesis
    using inv sh h other unfolding counter_inv_def t
    by (auto simp: busy_def) (metis inside.simps(2))+
qed

lemma counter_inv_unlock:
  assumes inv: "counter_inv s" and sh: "guarded_shape P t" and i: "kids s i = AtUnlock j"
    and t: "t = set_kid i (kid_loop P (j + 1)) (s\<lparr>lk := g_release P i (lk s)\<rparr>)"
  shows "counter_inv t"
proof -
  have h: "holds i (lk s)" and li: "linv (lk s)" using inv i by (auto simp: counter_inv_def)
  have other: "\<not> inside (kids s q)" if "q \<noteq> i" for q
    using lck.exclusive [OF li h] inv that by (auto simp: counter_inv_def)
  have st: "all_stores P t = all_stores P s"
    by (rule all_stores_same [of _ _ i "kid_loop P (j + 1)"]) (simp_all add: t i)
  show ?thesis
    using inv sh st lck.released [OF li h] other unfolding counter_inv_def t
    by (auto simp: busy_def)
qed

lemma counter_inv_exit:
  assumes inv: "counter_inv s" and sh: "guarded_shape P t" and i: "kids s i = AtExit h c"
    and t: "t = set_kid i (Zombie h c) (s\<lparr>lk := g_exit P i (lk s)\<rparr>)"
  shows "counter_inv t"
proof -
  have li: "linv (lk s)" and f: "(\<exists>e. g_fails P e) \<or> \<not> holds i (lk s)"
    using inv i by (auto simp: counter_inv_def)
  have st: "all_stores P t = all_stores P s"
    by (rule all_stores_same [of _ _ i "Zombie h c"]) (simp_all add: t i)
  show ?thesis
    using inv sh st lck.exited [OF li f] unfolding counter_inv_def t
    by (auto simp: i)
qed

lemma counter_inv_step:
  assumes inv: "counter_inv s" and step: "guarded_nxt P a s = Some t"
  shows "counter_inv t"
proof -
  have sh: "guarded_shape P t"
    using guarded_shape_step [OF _ step] inv by (simp add: counter_inv_def)
  note kid = counter_inv_kid [OF inv sh] and frame = counter_inv_frame [OF inv sh]
  from step show ?thesis
  proof (cases rule: guarded_nxtE)
    case (fork i)
    then have u: "kids s i = Unborn" using inv by (auto simp: counter_inv_def guarded_shape_def)
    then have "\<not> holds i (lk s)" using inv by (auto simp: counter_inv_def busy_def)
    with fork u show ?thesis by (intro kid [of i "kid_loop P 0"]) simp_all
  next
    case (lock i j l)
    then show ?thesis using counter_inv_lock [OF inv sh] by blast
  next
    case (load i j)
    then show ?thesis by (intro kid [of i "AtStore j (cell s)"]) (simp_all add: busy_def)
  next
    case (store i j x)
    then show ?thesis using counter_inv_store [OF inv sh] by blast
  next
    case (unlock i j)
    then show ?thesis using counter_inv_unlock [OF inv sh] by blast
  next
    case (exit i h c)
    then show ?thesis using counter_inv_exit [OF inv sh] by blast
  next
    case (failure i e h c)
    then show ?thesis by (intro kid [of i "AtExit h c"]) (auto simp: busy_def)
  next
    case (reap i h c)
    then have "\<not> holds i (lk s)" using inv by (auto simp: counter_inv_def busy_def)
    with reap show ?thesis by (intro kid [of i "Reaped h c"]) simp_all
  qed (use frame in simp_all)
qed

end

subsection \<open>The report\<close>

definition guarded_report :: "'l guarded \<Rightarrow> 'l counter_sys \<Rightarrow> bool" where
  "guarded_report P s \<longleftrightarrow> g_out s = (if parent s \<in> {Removing, Gone} then g_line P (cell s) else [])
     \<and> object s = (parent s \<noteq> Gone)"

lemma guarded_report_step:
  assumes sh: "guarded_shape P s" and r: "guarded_report P s" and step: "guarded_nxt P a s = Some t"
  shows "guarded_report P t"
  using step
proof (cases rule: guarded_nxtE)
  case (store i j x)
  then have "i < g_kids P" using guarded_shape_kid [OF sh, of i] by simp
  with store sh have "parent s \<notin> {Removing, Gone}" by (force simp: guarded_shape_def)
  with r store show ?thesis by (simp add: guarded_report_def)
qed (use r in \<open>auto simp: guarded_report_def\<close>)

text \<open>Children that end normally have run all their iterations; no fork was lost.\<close>

fun complete :: "nat \<Rightarrow> kid \<Rightarrow> bool" where
  "complete n (AtExit h c) = (c = n)"
| "complete n (Zombie h c) = (c = n)"
| "complete n (Reaped h c) = (c = n)"
| "complete n k = True"

definition all_complete :: "'l guarded \<Rightarrow> 'l counter_sys \<Rightarrow> bool" where
  "all_complete P s \<longleftrightarrow> (\<forall>i. complete (g_iters P) (kids s i))
     \<and> (\<forall>i<g_kids P. kids s i = Unborn \<longrightarrow> (\<exists>n\<le>i. parent s = Forking n))"

lemma kid_loop_complete [simp]: "j \<le> g_iters P \<Longrightarrow> complete (g_iters P) (kid_loop P j)"
  "kid_loop P j \<noteq> Unborn"
  by (simp_all add: kid_loop_def)

lemma fork_loop_index: "(\<exists>n\<le>i. fork_loop P m = Forking n) \<longleftrightarrow> m \<le> i \<and> m < g_kids P"
  by (auto simp: fork_loop_def)

lemma all_complete_set_kid:
  assumes "all_complete P s" and "kids t = (kids s)(i := k)" and "parent t = parent s"
    and "complete (g_iters P) k" and "k \<noteq> Unborn"
  shows "all_complete P t"
  using assms by (auto simp: all_complete_def)

lemma all_complete_step:
  assumes sh: "guarded_shape P s" and c: "all_complete P s"
    and step: "only clean (guarded_nxt P) a s = Some t"
  shows "all_complete P t"
proof -
  have ok: "kid_ok (g_iters P) (kids s i)" for i using sh by (simp add: guarded_shape_def)
  have cm: "complete (g_iters P) (kids s i)" for i using c by (simp add: all_complete_def)
  note keep = all_complete_set_kid [OF c]
  have "clean a" and "guarded_nxt P a s = Some t" using step by (auto simp: only_def split: if_splits)
  from this(2) show ?thesis
  proof (cases rule: guarded_nxtE)
    case (fork i)
    then show ?thesis
      using c by (auto simp: all_complete_def fork_loop_index Suc_le_eq nat_less_le)
  next
    case (lock i j l)
    then show ?thesis by (intro keep [of _ i "AtLoad j"]) simp_all
  next
    case (load i j)
    then show ?thesis by (intro keep [of _ i "AtStore j (cell s)"]) simp_all
  next
    case (store i j x)
    then show ?thesis by (intro keep [of _ i "AtUnlock j"]) simp_all
  next
    case (unlock i j)
    then show ?thesis using ok [of i] by (intro keep [of _ i "kid_loop P (j + 1)"]) simp_all
  next
    case (exit i h n)
    then show ?thesis using cm [of i] by (intro keep [of _ i "Zombie h n"]) simp_all
  next
    case (reap i h n)
    then show ?thesis using cm [of i] by (intro keep [of _ i "Reaped h n"]) simp_all
  qed (use c \<open>clean a\<close> in \<open>auto simp: all_complete_def\<close>)
qed

lemma all_complete_total:
  assumes "guarded_shape P s" and "all_complete P s" and "parent s \<in> {Printing, Removing, Gone}"
  shows "all_stores P s = g_kids P * g_iters P"
proof -
  have "stores (kids s i) = g_iters P" if "i < g_kids P" for i
  proof -
    have "gone (kids s i)" using assms(1,3) that by (auto simp: guarded_shape_def)
    moreover have "kids s i \<noteq> Unborn" using assms(2,3) that by (auto simp: all_complete_def)
    moreover have "complete (g_iters P) (kids s i)" using assms(2) by (simp add: all_complete_def)
    ultimately show ?thesis by (cases "kids s i") auto
  qed
  then show ?thesis by (simp add: all_stores_def)
qed

context guarded_counter
begin

definition run_inv :: "'l counter_sys \<Rightarrow> bool" where
  "run_inv s \<longleftrightarrow> counter_inv s \<and> guarded_report P s"

definition clean_inv :: "'l counter_sys \<Rightarrow> bool" where
  "clean_inv s \<longleftrightarrow> run_inv s \<and> all_complete P s"

lemma counter_shape: "counter_inv s \<Longrightarrow> guarded_shape P s"
  by (simp add: counter_inv_def)

lemma counter_grant:
  assumes "counter_inv s" and "g_acquire P i (lk s) = None"
  shows "\<exists>q. busy (kids s q)"
proof -
  have "linv (lk s)" and h: "\<And>q. holds q (lk s) \<Longrightarrow> busy (kids s q)"
    using assms(1) by (simp_all add: counter_inv_def)
  with lck.blocked assms(2) obtain q where "holds q (lk s)" by blast
  then show ?thesis using h by blast
qed

lemma run_inv_step: "run_inv s \<Longrightarrow> guarded_nxt P a s = Some t \<Longrightarrow> run_inv t"
  using counter_inv_step [of s a t] guarded_report_step [of P s a t] counter_shape [of s]
  by (simp add: run_inv_def)

lemma run_inv_start: "run_inv (guarded_start P l0)"
  using counter_inv_start
  by (auto simp: run_inv_def guarded_report_def guarded_start_def)

lemma clean_inv_start: "clean_inv (guarded_start P l0)"
  using run_inv_start
  by (auto simp: clean_inv_def all_complete_def guarded_start_def fork_loop_def)

lemma clean_inv_step:
  "clean_inv s \<Longrightarrow> only clean (guarded_nxt P) a s = Some t \<Longrightarrow> clean_inv t"
  using all_complete_step [of P s a t] run_inv_step [of s a t] counter_shape [of s]
  by (simp add: clean_inv_def run_inv_def only_def split: if_splits)

end

sublocale guarded_counter \<subseteq> any: guarded_live P "\<lambda>a. True" "guarded_start P l0" run_inv
proof unfold_locales
  show "run_inv (guarded_start P l0)" by (rule run_inv_start)
  show "run_inv t" if "run_inv s" and "only (\<lambda>a. True) (guarded_nxt P) a s = Some t" for s a t
    using run_inv_step [OF that(1)] that(2) by (simp add: only_def)
  show "guarded_shape P s" if "run_inv s" for s
    using counter_shape that by (simp add: run_inv_def)
  show "\<exists>q. busy (kids s q)" if "run_inv s" and "g_acquire P i (lk s) = None" for s i
    using counter_grant [OF _ that(2)] that(1) by (simp add: run_inv_def)
qed simp_all

sublocale guarded_counter \<subseteq> cln: guarded_live P clean "guarded_start P l0" clean_inv
proof unfold_locales
  show "clean_inv (guarded_start P l0)" by (rule clean_inv_start)
  show "clean_inv t" if "clean_inv s" and "only clean (guarded_nxt P) a s = Some t" for s a t
    using clean_inv_step [OF that] .
  show "guarded_shape P s" if "clean_inv s" for s
    using counter_shape that by (simp add: clean_inv_def run_inv_def)
  show "\<exists>q. busy (kids s q)" if "clean_inv s" and "g_acquire P i (lk s) = None" for s i
    using counter_grant [OF _ that(2)] that(1) by (simp add: clean_inv_def run_inv_def)
qed simp_all

text \<open>Also after failures, the program ends by steps that do not fail.\<close>

sublocale guarded_counter \<subseteq> rec: guarded_live P clean "guarded_start P l0" run_inv
proof unfold_locales
  show "run_inv t" if "run_inv s" and "only clean (guarded_nxt P) a s = Some t" for s a t
    using run_inv_step [OF that(1)] that(2) by (simp add: only_def split: if_splits)
qed (use any.live_init any.live_shape any.live_grant in simp_all)

context guarded_counter
begin

text \<open>
  Without failures the program always ends and reports the product; with failed forks and failed
  lock calls it still ends, and reports exactly the increments that were made.
\<close>

lemma counter_result:
  assumes "run (guarded_nxt P) as (guarded_start P l0) = Some t" and "\<forall>a \<in> set as. clean a"
  shows "(\<exists>bs u. list_all clean bs \<and> run (guarded_nxt P) (as @ bs) (guarded_start P l0) = Some u
         \<and> parent u = Gone)
    \<and> (parent t = Gone \<longrightarrow> \<not> object t
         \<and> g_out t = g_line P (g_inc P * int (g_kids P * g_iters P)))"
proof -
  have r: "run (only clean (guarded_nxt P)) as (guarded_start P l0) = Some t"
    using assms by (simp add: run_only)
  have "\<exists>bs u. list_all clean bs \<and> run (guarded_nxt P) (as @ bs) (guarded_start P l0) = Some u \<and> parent u = Gone"
    using cln.sys.completes [OF r] by (auto simp: guarded_done_def dest: run_only_run run_only_list)
  moreover have "\<not> object t \<and> g_out t = g_line P (g_inc P * int (g_kids P * g_iters P))"
    if "parent t = Gone"
  proof -
    have inv: "clean_inv t" using r by (rule cln.sys.inv_reached)
    then have "all_stores P t = g_kids P * g_iters P"
      using that by (intro all_complete_total) (simp_all add: clean_inv_def run_inv_def counter_shape)
    with inv that show ?thesis
      by (simp add: clean_inv_def run_inv_def guarded_report_def counter_inv_def)
  qed
  ultimately show ?thesis by blast
qed

lemma counter_exact:
  assumes "run (guarded_nxt P) as (guarded_start P l0) = Some t"
  shows "length as \<le> guarded_msr P (guarded_start P l0)
    \<and> (\<exists>bs u. list_all clean bs \<and> run (guarded_nxt P) (as @ bs) (guarded_start P l0) = Some u
         \<and> parent u = Gone)
    \<and> cell t = g_inc P * int (all_stores P t)
    \<and> (inside (kids t i) \<and> inside (kids t k) \<longrightarrow> i = k)
    \<and> (parent t = Gone \<longrightarrow> g_out t = g_line P (g_inc P * int (all_stores P t)))"
proof -
  have r: "run (only (\<lambda>a. True) (guarded_nxt P)) as (guarded_start P l0) = Some t"
    using assms by (simp add: run_only)
  have "run_inv t" using r by (rule any.sys.inv_reached)
  then have inv: "counter_inv t" and rep: "guarded_report P t" by (simp_all add: run_inv_def)
  have excl: "inside (kids t i) \<and> inside (kids t k) \<longrightarrow> i = k"
    using lck.exclusive [of "lk t" k i] inv by (simp add: counter_inv_def)
  have c: "cell t = g_inc P * int (all_stores P t)" using inv by (simp add: counter_inv_def)
  have out: "parent t = Gone \<longrightarrow> g_out t = g_line P (g_inc P * int (all_stores P t))"
    using rep c by (simp add: guarded_report_def)
  have len: "length as \<le> guarded_msr P (guarded_start P l0)" by (rule any.sys.bounded [OF r])
  obtain bs u where b: "run (only clean (guarded_nxt P)) bs t = Some u" "guarded_done u"
    using rec.sys.completes_from [OF \<open>run_inv t\<close>] by blast
  have "list_all clean bs" using run_only_list [of clean _ "[]" bs] b(1) by simp
  moreover have "run (guarded_nxt P) (as @ bs) (guarded_start P l0) = Some u \<and> parent u = Gone"
    using b run_only_run [OF b(1)] assms by (simp add: run_append guarded_done_def)
  ultimately have fin: "\<exists>bs u. list_all clean bs \<and> run (guarded_nxt P) (as @ bs) (guarded_start P l0) = Some u
      \<and> parent u = Gone"
    by blast
  show ?thesis using len fin c excl out by (intro conjI)
qed

end

end
