(* ===== verification/RecordLocks.thy ===== *)
theory RecordLocks
  imports Guarded
begin

text \<open>
  Advisory write locks on byte ranges of one file, as \<open>fcntl\<close> sets them: the table of the kernel,
  with locking, unlocking and the exit of a process. An owner is a process for \<open>F_SETLK\<close> and
  \<open>F_SETLKW\<close>, and an open file description for \<open>F_OFD_SETLKW\<close>. The lemmas reduce the table to the
  question which owner holds which byte.
\<close>

text \<open>The range of a \<open>struct flock\<close>, where length 0 reaches to the end of any file.\<close>

record flock =
  l_start :: nat
  l_len :: nat

type_synonym 'o lock_table = "('o \<times> flock) list"

datatype ltype = F_WRLCK | F_UNLCK

definition covers :: "flock \<Rightarrow> nat \<Rightarrow> bool" where
  "covers r b \<longleftrightarrow> l_start r \<le> b \<and> (l_len r = 0 \<or> b < l_start r + l_len r)"

definition overlaps :: "flock \<Rightarrow> flock \<Rightarrow> bool" where
  "overlaps h r \<longleftrightarrow> (l_len h = 0 \<or> l_start r < l_start h + l_len h)
     \<and> (l_len r = 0 \<or> l_start h < l_start r + l_len r)"

text \<open>What is left of a held range when a range is taken out of it: at most two pieces.\<close>

definition cut :: "flock \<Rightarrow> flock \<Rightarrow> flock list" where
  "cut h r =
     (if \<not> overlaps h r then [h]
      else (if l_start h < l_start r
            then [\<lparr>l_start = l_start h, l_len = l_start r - l_start h\<rparr>] else [])
        @ (let e = l_start r + l_len r in
           if l_len r = 0 then []
           else if l_len h = 0 then [\<lparr>l_start = e, l_len = 0\<rparr>]
           else if e < l_start h + l_len h
           then [\<lparr>l_start = e, l_len = l_start h + l_len h - e\<rparr>]
           else []))"

definition take_out :: "'o \<Rightarrow> flock \<Rightarrow> 'o lock_table \<Rightarrow> 'o lock_table" where
  "take_out p r tbl =
     concat (map (\<lambda>(q, h). if q = p then map (Pair q) (cut h r) else [(q, h)]) tbl)"

definition conflict :: "'o \<Rightarrow> flock \<Rightarrow> 'o lock_table \<Rightarrow> bool" where
  "conflict p r tbl \<longleftrightarrow> (\<exists>(q, h) \<in> set tbl. q \<noteq> p \<and> overlaps h r)"

text \<open>
  The call: \<open>None\<close> when a conflicting lock is held, on which \<open>F_SETLKW\<close> waits and \<open>F_SETLK\<close> fails.
\<close>

definition fcntl_lock :: "'o \<Rightarrow> ltype \<Rightarrow> flock \<Rightarrow> 'o lock_table \<Rightarrow> 'o lock_table option" where
  "fcntl_lock p ty r tbl =
     (case ty of
        F_UNLCK \<Rightarrow> Some (take_out p r tbl)
      | F_WRLCK \<Rightarrow> if conflict p r tbl then None else Some ((p, r) # take_out p r tbl))"

text \<open>A process that exits, or closes a descriptor of the file, loses all its locks.\<close>

definition drop_owner :: "'o \<Rightarrow> 'o lock_table \<Rightarrow> 'o lock_table" where
  "drop_owner p tbl = filter (\<lambda>(q, h). q \<noteq> p) tbl"

subsection \<open>Owners of bytes\<close>

definition owns :: "'o lock_table \<Rightarrow> 'o \<Rightarrow> nat \<Rightarrow> bool" where
  "owns tbl p b \<longleftrightarrow> (\<exists>r. (p, r) \<in> set tbl \<and> covers r b)"

definition table_ok :: "'o lock_table \<Rightarrow> bool" where
  "table_ok tbl \<longleftrightarrow> (\<forall>p q b. owns tbl p b \<longrightarrow> owns tbl q b \<longrightarrow> p = q)"

lemma overlaps_common: "overlaps h r \<longleftrightarrow> (\<exists>b. covers h b \<and> covers r b)"
proof
  assume "overlaps h r"
  then have "covers h (max (l_start h) (l_start r)) \<and> covers r (max (l_start h) (l_start r))"
    by (auto simp: overlaps_def covers_def)
  then show "\<exists>b. covers h b \<and> covers r b" by blast
qed (auto simp: overlaps_def covers_def)

lemma cut_covers: "(\<exists>x \<in> set (cut h r). covers x b) \<longleftrightarrow> covers h b \<and> \<not> covers r b"
  by (cases "l_len h = 0"; cases "l_len r = 0")
    (auto simp: cut_def covers_def overlaps_def Let_def)

lemma owns_take_out: "owns (take_out p r tbl) q b \<longleftrightarrow> owns tbl q b \<and> \<not> (q = p \<and> covers r b)"
proof -
  have "owns (take_out p r tbl) q b \<longleftrightarrow>
      (\<exists>h. (q, h) \<in> set tbl \<and> (if q = p then \<exists>x \<in> set (cut h r). covers x b else covers h b))"
    by (fastforce simp: owns_def take_out_def split: if_splits)
  then show ?thesis by (auto simp: owns_def cut_covers split: if_splits)
qed

lemma owns_lock:
  "owns ((p, r) # take_out p r tbl) q b \<longleftrightarrow> owns tbl q b \<or> q = p \<and> covers r b"
proof -
  have "owns ((p, r) # take_out p r tbl) q b \<longleftrightarrow> q = p \<and> covers r b \<or> owns (take_out p r tbl) q b"
    by (auto simp: owns_def)
  then show ?thesis by (auto simp: owns_take_out)
qed

lemma owns_drop: "owns (drop_owner p tbl) q b \<longleftrightarrow> owns tbl q b \<and> q \<noteq> p"
  by (auto simp: owns_def drop_owner_def)

lemma conflict_owns: "conflict p r tbl \<longleftrightarrow> (\<exists>q b. q \<noteq> p \<and> covers r b \<and> owns tbl q b)"
  by (fastforce simp: conflict_def owns_def overlaps_common)

lemma owns_empty [simp]: "\<not> owns [] p b"
  by (simp add: owns_def)

lemma fcntl_lock_owns:
  assumes "fcntl_lock p F_WRLCK r tbl = Some tbl'"
  shows "owns tbl' q b \<longleftrightarrow> owns tbl q b \<or> q = p \<and> covers r b"
  using assms by (auto simp: fcntl_lock_def owns_lock split: if_splits)

lemma fcntl_lock_excludes:
  "fcntl_lock p F_WRLCK r tbl = Some tbl' \<Longrightarrow> owns tbl q b \<Longrightarrow> covers r b \<Longrightarrow> q = p"
  by (auto simp: fcntl_lock_def conflict_owns split: if_splits)

lemma fcntl_lock_blocked:
  "fcntl_lock p F_WRLCK r tbl = None \<Longrightarrow> \<exists>q b. q \<noteq> p \<and> covers r b \<and> owns tbl q b"
  by (auto simp: fcntl_lock_def conflict_owns split: if_splits)

lemma fcntl_unlock_owns:
  "fcntl_lock p F_UNLCK r tbl = Some tbl' \<Longrightarrow> owns tbl' q b \<longleftrightarrow> owns tbl q b \<and> \<not> (q = p \<and> covers r b)"
  by (auto simp: fcntl_lock_def owns_take_out)

lemma table_ok_empty: "table_ok []"
  by (simp add: table_ok_def)

lemma table_ok_lock:
  assumes "table_ok tbl" and "fcntl_lock p ty r tbl = Some tbl'"
  shows "table_ok tbl'"
proof (cases ty)
  case F_WRLCK
  with assms(2) have l: "fcntl_lock p F_WRLCK r tbl = Some tbl'" by simp
  show ?thesis
    using assms(1) fcntl_lock_owns [OF l] fcntl_lock_excludes [OF l] unfolding table_ok_def by blast
next
  case F_UNLCK
  with assms show ?thesis by (auto simp: table_ok_def fcntl_unlock_owns)
qed

lemma table_ok_drop: "table_ok tbl \<Longrightarrow> table_ok (drop_owner p tbl)"
  by (auto simp: table_ok_def owns_drop)

end
