(* ===== verification/CounterPrograms.thy ===== *)
theory CounterPrograms
  imports RecordLocks
begin

text \<open>
  The four programs whose children increment a counter under a lock: an \<open>fcntl\<close> record lock
  (\<open>SharedMemory/mmap_file_lock_counter.c\<close>), a process-shared mutex
  (\<open>SharedMemory/process_shared_mutex.c\<close>), a System V semaphore with undo
  (\<open>Semaphores/sysv_binary_semaphore_guard.c\<close>) and a lock of the open file description
  (\<open>FileLocking/ofd_lock_counter.c\<close>). The first three interpret the lock interface. The fourth
  does not: its children share one open file description, so its lock excludes nobody.
\<close>

subsection \<open>Record locks\<close>

definition whole_file :: flock where
  "whole_file = \<lparr>l_start = 0, l_len = 0\<rparr>"

text \<open>Process \<open>i\<close> is the owner of the locks child \<open>i\<close> sets; the call waits for a conflicting lock.\<close>

definition lock_region :: "nat \<Rightarrow> ltype \<Rightarrow> nat lock_table \<Rightarrow> nat lock_table option" where
  "lock_region i ty tbl = fcntl_lock i ty whole_file tbl"

definition unlock_with :: "('l \<Rightarrow> 'l option) \<Rightarrow> 'l \<Rightarrow> 'l" where
  "unlock_with f l = (case f l of None \<Rightarrow> l | Some m \<Rightarrow> m)"

definition mmap_file_lock_counter :: "nat lock_table guarded" where
  "mmap_file_lock_counter =
     \<lparr>g_acquire = (\<lambda>i. lock_region i F_WRLCK),
      g_release = (\<lambda>i. unlock_with (lock_region i F_UNLCK)),
      g_exit = drop_owner,
      g_fails = (\<lambda>e. True),
      g_die = die_errno ''fcntl'',
      g_kids = 4,
      g_iters = 1000,
      g_inc = 1,
      g_line = (\<lambda>c. ''counter='' @ fmt_d c @ '' expected='' @ fmt_d 4000 @ [newline])\<rparr>"

text \<open>
  The set-up: the results of \<open>open\<close> and \<open>mmap\<close> and whether \<open>ftruncate\<close>, whose result is not
  tested, gave the file its size; the first store to the mapping of an empty file raises a signal.
\<close>

definition mmap_counter_setup ::
  "errno option \<Rightarrow> bool \<Rightarrow> errno option \<Rightarrow> nat lock_table counter_sys res" where
  "mmap_counter_setup open_res sized mmap_res =
     (case open_res of
        Some e \<Rightarrow> Inl (die_errno ''open'' e)
      | None \<Rightarrow>
          (case mmap_res of
             Some e \<Rightarrow> Inl (die_errno ''mmap'' e)
           | None \<Rightarrow>
               if \<not> sized then Inl (Killed ''SIGBUS'')
               else Inr (guarded_start mmap_file_lock_counter [])))"

definition holds_file :: "nat \<Rightarrow> nat lock_table \<Rightarrow> bool" where
  "holds_file p tbl \<longleftrightarrow> owns tbl p 0"

definition file_ok :: "nat lock_table \<Rightarrow> bool" where
  "file_ok tbl \<longleftrightarrow> table_ok tbl \<and> (\<forall>q b. owns tbl q b \<longrightarrow> owns tbl q 0)"

lemma covers_whole [simp]: "covers whole_file b"
  by (simp add: covers_def whole_file_def)

lemma lock_region_owns:
  assumes "lock_region p F_WRLCK tbl = Some tbl'"
  shows "owns tbl' q b \<longleftrightarrow> q = p"
  using fcntl_lock_owns [of p whole_file tbl tbl'] fcntl_lock_excludes [of p whole_file tbl tbl'] assms
  by (auto simp: lock_region_def)

lemma unlock_region_owns:
  "owns (unlock_with (lock_region p F_UNLCK) tbl) q b \<longleftrightarrow> owns tbl q b \<and> q \<noteq> p"
  by (simp add: unlock_with_def lock_region_def fcntl_lock_def owns_take_out)

interpretation region_lock: exclusive_lock "\<lambda>i. lock_region i F_WRLCK"
  "\<lambda>i. unlock_with (lock_region i F_UNLCK)" drop_owner True holds_file file_ok
proof unfold_locales
  fix l m :: "nat lock_table" and p q :: nat
  show "file_ok m \<and> (\<forall>q. holds_file q m \<longleftrightarrow> q = p)" if "lock_region p F_WRLCK l = Some m"
    using lock_region_owns [OF that] by (simp add: file_ok_def table_ok_def holds_file_def)
  show "p = q" if "file_ok l" "holds_file q l" "holds_file p l"
    using that by (auto simp: file_ok_def table_ok_def holds_file_def)
  show "q = p" if "lock_region p F_WRLCK l = Some m" "holds_file q l"
    using fcntl_lock_excludes [of p whole_file l m q 0] that
    by (simp add: lock_region_def holds_file_def)
  show "\<exists>q. holds_file q l" if "file_ok l" "lock_region p F_WRLCK l = None"
    using fcntl_lock_blocked [of p whole_file l] that
    by (auto simp: lock_region_def holds_file_def file_ok_def)
  show "file_ok (unlock_with (lock_region p F_UNLCK) l)
      \<and> (\<forall>q. \<not> holds_file q (unlock_with (lock_region p F_UNLCK) l))"
    if "file_ok l" "holds_file p l"
    using that by (auto simp: file_ok_def table_ok_def holds_file_def unlock_region_owns)
  show "file_ok (drop_owner p l) \<and> (\<forall>q. holds_file q (drop_owner p l) \<longleftrightarrow> holds_file q l \<and> q \<noteq> p)"
    if "file_ok l"
    using that by (auto simp: file_ok_def table_ok_def holds_file_def owns_drop)
qed

interpretation file_counter: guarded_counter mmap_file_lock_counter "[]" holds_file file_ok
proof (rule guarded_counter.intro)
  have "exclusive_lock (\<lambda>i. lock_region i F_WRLCK) (\<lambda>i. unlock_with (lock_region i F_UNLCK))
      drop_owner True holds_file file_ok"
    by (rule region_lock.exclusive_lock_axioms)
  then show "exclusive_lock (g_acquire mmap_file_lock_counter) (g_release mmap_file_lock_counter)
      (g_exit mmap_file_lock_counter) (\<exists>e. g_fails mmap_file_lock_counter e) holds_file file_ok"
    by (simp add: mmap_file_lock_counter_def)
qed (simp_all add: file_ok_def table_ok_def holds_file_def)

subsection \<open>A process-shared mutex\<close>

text \<open>
  A default mutex: its owner, if any. Locking it again blocks; only the owner unlocks; the exit of
  a process leaves it as it is. The program ignores the results of the calls, which do not fail on
  a mutex that has been initialised.
\<close>

definition mutex_lock :: "nat \<Rightarrow> nat option \<Rightarrow> nat option option" where
  "mutex_lock p m = (case m of None \<Rightarrow> Some (Some p) | Some q \<Rightarrow> None)"

definition mutex_unlock :: "nat \<Rightarrow> nat option \<Rightarrow> nat option" where
  "mutex_unlock p m = (if m = Some p then None else m)"

definition process_shared_mutex :: "nat option guarded" where
  "process_shared_mutex =
     \<lparr>g_acquire = mutex_lock,
      g_release = mutex_unlock,
      g_exit = (\<lambda>p m. m),
      g_fails = (\<lambda>e. False),
      g_die = (\<lambda>e. Exit 0 []),
      g_kids = 4,
      g_iters = 500,
      g_inc = 2,
      g_line = (\<lambda>c. ''shared balance='' @ fmt_d c @ '' expected=4000'' @ [newline])\<rparr>"

definition mutex_setup ::
  "errno option \<Rightarrow> bool \<Rightarrow> errno option \<Rightarrow> nat option counter_sys res" where
  "mutex_setup shm_open_res sized mmap_res =
     (case shm_open_res of
        Some e \<Rightarrow> Inl (die_errno ''shm_open'' e)
      | None \<Rightarrow>
          (case mmap_res of
             Some e \<Rightarrow> Inl (die_errno ''mmap'' e)
           | None \<Rightarrow>
               if \<not> sized then Inl (Killed ''SIGBUS'')
               else Inr (guarded_start process_shared_mutex None)))"

interpretation pmutex: exclusive_lock mutex_lock mutex_unlock "\<lambda>p m. m" False "\<lambda>p m. m = Some p" "\<lambda>m. True"
  by unfold_locales (auto simp: mutex_lock_def mutex_unlock_def split: option.splits)

interpretation balance: guarded_counter process_shared_mutex None "\<lambda>p m. m = Some p" "\<lambda>m. True"
proof (rule guarded_counter.intro)
  have "exclusive_lock mutex_lock mutex_unlock (\<lambda>p m. m) False (\<lambda>p m. m = Some p) (\<lambda>m. True)"
    by (rule pmutex.exclusive_lock_axioms)
  then show "exclusive_lock (g_acquire process_shared_mutex) (g_release process_shared_mutex)
      (g_exit process_shared_mutex) (\<exists>e. g_fails process_shared_mutex e) (\<lambda>p m. m = Some p) (\<lambda>m. True)"
    by (simp add: process_shared_mutex_def)
qed simp_all

subsection \<open>A System V semaphore with undo\<close>

text \<open>
  The value of the semaphore and the adjustment of each process: an operation with \<open>SEM_UNDO\<close>
  subtracts its number from the adjustment, and the exit of the process adds the adjustment to the
  value, which does not go below zero.
\<close>

record sem_undo =
  semval :: int
  semadj :: "nat \<Rightarrow> int"

definition sem_op :: "nat \<Rightarrow> int \<Rightarrow> sem_undo \<Rightarrow> sem_undo option" where
  "sem_op p n s =
     (if n < 0 \<and> semval s + n < 0 then None
      else Some \<lparr>semval = semval s + n, semadj = (semadj s)(p := semadj s p - n)\<rparr>)"

definition sem_exit :: "nat \<Rightarrow> sem_undo \<Rightarrow> sem_undo" where
  "sem_exit p s = \<lparr>semval = max 0 (semval s + semadj s p), semadj = (semadj s)(p := 0)\<rparr>"

definition sysv_binary_semaphore_guard :: "sem_undo guarded" where
  "sysv_binary_semaphore_guard =
     \<lparr>g_acquire = (\<lambda>i. sem_op i (-1)),
      g_release = (\<lambda>i. unlock_with (sem_op i 1)),
      g_exit = sem_exit,
      g_fails = (\<lambda>e. True),
      g_die = die_errno ''semop'',
      g_kids = 4,
      g_iters = 1000,
      g_inc = 1,
      g_line = (\<lambda>c. ''system-v guarded counter='' @ fmt_d c @ '' expected=4000'' @ [newline])\<rparr>"

definition sem_unlocked :: sem_undo where
  "sem_unlocked = \<lparr>semval = 1, semadj = (\<lambda>p. 0)\<rparr>"

definition sysv_guard_setup ::
  "errno option \<Rightarrow> errno option \<Rightarrow> errno option \<Rightarrow> errno option \<Rightarrow> sem_undo counter_sys res" where
  "sysv_guard_setup semget_res setval_res shmget_res shmat_res =
     (case semget_res of
        Some e \<Rightarrow> Inl (die_errno ''semget'' e)
      | None \<Rightarrow>
          (case setval_res of
             Some e \<Rightarrow> Inl (die_errno ''semctl SETVAL'' e)
           | None \<Rightarrow>
               (case shmget_res of
                  Some e \<Rightarrow> Inl (die_errno ''shmget'' e)
                | None \<Rightarrow>
                    (case shmat_res of
                       Some e \<Rightarrow> Inl (die_errno ''shmat'' e)
                     | None \<Rightarrow> Inr (guarded_start sysv_binary_semaphore_guard sem_unlocked)))))"

definition sem_ok :: "sem_undo \<Rightarrow> bool" where
  "sem_ok s \<longleftrightarrow> s = sem_unlocked \<or> (\<exists>p. s = \<lparr>semval = 0, semadj = (\<lambda>q. 0)(p := 1)\<rparr>)"

definition holds_sem :: "nat \<Rightarrow> sem_undo \<Rightarrow> bool" where
  "holds_sem p s \<longleftrightarrow> semadj s p = 1"

interpretation undo_sem: exclusive_lock "\<lambda>i. sem_op i (-1)" "\<lambda>i. unlock_with (sem_op i 1)" sem_exit True
  holds_sem sem_ok
  by unfold_locales
    (auto simp: sem_ok_def holds_sem_def sem_unlocked_def sem_op_def sem_exit_def unlock_with_def
      fun_eq_iff split: if_splits)

interpretation sem_counter: guarded_counter sysv_binary_semaphore_guard sem_unlocked holds_sem sem_ok
proof (rule guarded_counter.intro)
  have "exclusive_lock (\<lambda>i. sem_op i (-1)) (\<lambda>i. unlock_with (sem_op i 1)) sem_exit True holds_sem sem_ok"
    by (rule undo_sem.exclusive_lock_axioms)
  then show "exclusive_lock (g_acquire sysv_binary_semaphore_guard) (g_release sysv_binary_semaphore_guard)
      (g_exit sysv_binary_semaphore_guard) (\<exists>e. g_fails sysv_binary_semaphore_guard e) holds_sem sem_ok"
    by (simp add: sysv_binary_semaphore_guard_def)
qed (simp_all add: sem_ok_def holds_sem_def sem_unlocked_def)

subsection \<open>Locks of an open file description\<close>

text \<open>
  The descriptor is opened once, before the forks, so all children use one open file description,
  here number 0. It is the owner of the locks all of them set, and it stays open in the parent
  when a child exits.
\<close>

definition ofd_lock :: "ltype \<Rightarrow> nat lock_table \<Rightarrow> nat lock_table option" where
  "ofd_lock ty tbl = fcntl_lock 0 ty whole_file tbl"

definition ofd_lock_counter :: "nat lock_table guarded" where
  "ofd_lock_counter =
     \<lparr>g_acquire = (\<lambda>i. ofd_lock F_WRLCK),
      g_release = (\<lambda>i. unlock_with (ofd_lock F_UNLCK)),
      g_exit = (\<lambda>i l. l),
      g_fails = (\<lambda>e. True),
      g_die = die_errno ''F_OFD_SETLKW'',
      g_kids = 3,
      g_iters = 500,
      g_inc = 1,
      g_line = (\<lambda>c. ''ofd-locked counter='' @ fmt_d c @ '' expected=1500'' @ [newline])\<rparr>"

definition ofd_setup :: "errno option \<Rightarrow> bool \<Rightarrow> errno option \<Rightarrow> nat lock_table counter_sys res" where
  "ofd_setup open_res sized mmap_res =
     (case open_res of
        Some e \<Rightarrow> Inl (die_errno ''open'' e)
      | None \<Rightarrow>
          (case mmap_res of
             Some e \<Rightarrow> Inl (die_errno ''mmap'' e)
           | None \<Rightarrow>
               if \<not> sized then Inl (Killed ''SIGBUS'')
               else Inr (guarded_start ofd_lock_counter [])))"

text \<open>Only the one description ever owns anything, so no call waits.\<close>

definition one_owner :: "nat lock_table \<Rightarrow> bool" where
  "one_owner tbl \<longleftrightarrow> (\<forall>(q, h) \<in> set tbl. q = 0)"

lemma one_owner_grant: "one_owner tbl \<Longrightarrow> ofd_lock F_WRLCK tbl \<noteq> None"
  by (auto simp: one_owner_def ofd_lock_def fcntl_lock_def conflict_def)

lemma one_owner_lock: "one_owner tbl \<Longrightarrow> ofd_lock ty tbl = Some tbl' \<Longrightarrow> one_owner tbl'"
  by (cases ty)
    (auto simp: one_owner_def ofd_lock_def fcntl_lock_def take_out_def split: if_splits)

lemma one_owner_unlock: "one_owner tbl \<Longrightarrow> one_owner (unlock_with (ofd_lock ty) tbl)"
  using one_owner_lock by (auto simp: unlock_with_def split: option.splits)

text \<open>An update has been lost: the counter, and every value a child is about to store, lags behind.\<close>

definition lagging :: "'l guarded \<Rightarrow> 'l counter_sys \<Rightarrow> bool" where
  "lagging P s \<longleftrightarrow> cell s < int (all_stores P s)
     \<and> (\<forall>i j x. kids s i = AtStore j x \<longrightarrow> x < int (all_stores P s))"

lemma lagging_kid:
  assumes "lagging P s" and t: "kids t = (kids s)(i := k)" "cell t = cell s"
    and k: "stores k = stores (kids s i)" "\<And>j x. k = AtStore j x \<Longrightarrow> x = cell s"
  shows "lagging P t"
  using assms(1) k(2) all_stores_same [OF t(1) k(1), of P] by (auto simp: lagging_def t)

lemma lagging_step:
  assumes sh: "guarded_shape P s" and inc: "g_inc P = 1" and lag: "lagging P s"
    and step: "guarded_nxt P a s = Some t"
  shows "lagging P t"
proof -
  note kid = lagging_kid [OF lag]
  from step show ?thesis
  proof (cases rule: guarded_nxtE)
    case (store i j y)
    then have "i < g_kids P" using guarded_shape_kid [OF sh, of i] by simp
    with store have "all_stores P t = Suc (all_stores P s)"
      using all_stores_set_kid [of i P t s "AtUnlock j"] by simp
    with store lag inc show ?thesis by (force simp: lagging_def split: if_splits)
  next
    case (fork i)
    then have "kids s i = Unborn" using sh by (auto simp: guarded_shape_def)
    with fork show ?thesis by (intro kid [of _ i "kid_loop P 0"]) simp_all
  next
    case (lock i j l)
    then show ?thesis by (intro kid [of _ i "AtLoad j"]) simp_all
  next
    case (load i j)
    then show ?thesis by (intro kid [of _ i "AtStore j (cell s)"]) simp_all
  next
    case (unlock i j)
    then show ?thesis by (intro kid [of _ i "kid_loop P (j + 1)"]) simp_all
  next
    case (exit i h n)
    then show ?thesis by (intro kid [of _ i "Zombie h n"]) simp_all
  next
    case (failure i e h n)
    then show ?thesis by (intro kid [of _ i "AtExit h n"]) auto
  next
    case (reap i h n)
    then show ?thesis by (intro kid [of _ i "Reaped h n"]) simp_all
  qed (use lag in \<open>auto simp: lagging_def all_stores_def\<close>)
qed

definition lost_inv :: "nat lock_table counter_sys \<Rightarrow> bool" where
  "lost_inv s \<longleftrightarrow> guarded_shape ofd_lock_counter s \<and> guarded_report ofd_lock_counter s
     \<and> all_complete ofd_lock_counter s \<and> one_owner (lk s) \<and> lagging ofd_lock_counter s"

lemma ofd_lock_step: "one_owner (lk s) \<Longrightarrow> guarded_nxt ofd_lock_counter a s = Some t \<Longrightarrow> one_owner (lk t)"
  by (erule guarded_nxtE)
    (simp_all add: ofd_lock_counter_def one_owner_unlock, erule (1) one_owner_lock)

lemma lost_inv_step:
  assumes "lost_inv s" and "only clean (guarded_nxt ofd_lock_counter) a s = Some t"
  shows "lost_inv t"
proof -
  have n: "guarded_nxt ofd_lock_counter a s = Some t"
    using assms(2) by (simp add: only_def split: if_splits)
  have "g_inc ofd_lock_counter = 1" by (simp add: ofd_lock_counter_def)
  then show ?thesis
    using assms(1) guarded_shape_step [OF _ n] guarded_report_step [OF _ _ n]
      all_complete_step [OF _ _ assms(2)] ofd_lock_step [OF _ n] lagging_step [OF _ _ _ n]
    by (simp add: lost_inv_def)
qed

text \<open>The schedule that loses an update, and the state it leads to.\<close>

definition lost_schedule :: "guarded_act list" where
  "lost_schedule = [Parent, Parent, Kid 0, Kid 1, Kid 0, Kid 1, Kid 0, Kid 1]"

definition lost_state :: "nat lock_table counter_sys" where
  "lost_state = (guarded_start ofd_lock_counter [])\<lparr>lk := [(0, whole_file)], cell := 1,
     kids := (\<lambda>i. Unborn)(0 := AtUnlock 0, 1 := AtUnlock 0), parent := Forking 2\<rparr>"

lemma lost_run:
  "run (guarded_nxt ofd_lock_counter) lost_schedule (guarded_start ofd_lock_counter []) = Some lost_state"
  by (simp add: lost_schedule_def lost_state_def guarded_start_def ofd_lock_counter_def parent_step_def
      fork_loop_def kid_loop_def kid_step_def set_kid_def ofd_lock_def fcntl_lock_def conflict_def
      take_out_def cut_def overlaps_def whole_file_def)

lemma lost_state_inv: "lost_inv lost_state"
proof -
  have "all_stores ofd_lock_counter lost_state = 2"
    by (simp add: all_stores_def lost_state_def ofd_lock_counter_def numeral_eq_Suc)
  then have "lagging ofd_lock_counter lost_state"
    by (simp add: lagging_def lost_state_def)
  moreover have "guarded_shape ofd_lock_counter lost_state"
    by (auto simp: guarded_shape_def lost_state_def ofd_lock_counter_def)
  moreover have "all_complete ofd_lock_counter lost_state"
    by (auto simp: all_complete_def lost_state_def ofd_lock_counter_def less_Suc_eq numeral_eq_Suc)
  ultimately show ?thesis
    by (simp add: lost_inv_def lost_state_def guarded_report_def guarded_start_def one_owner_def)
qed

interpretation lost: guarded_live ofd_lock_counter clean lost_state lost_inv
proof unfold_locales
  show "lost_inv lost_state" by (rule lost_state_inv)
  show "lost_inv t" if "lost_inv s" "only clean (guarded_nxt ofd_lock_counter) a s = Some t" for s a t
    using lost_inv_step [OF that] .
  show "guarded_shape ofd_lock_counter s" if "lost_inv s" for s
    using that by (simp add: lost_inv_def)
  show "\<exists>q. busy (kids s q)" if "lost_inv s" "g_acquire ofd_lock_counter i (lk s) = None" for s i
    using that one_owner_grant by (auto simp: lost_inv_def ofd_lock_counter_def)
qed simp_all

subsection \<open>Properties\<close>

text \<open>
  C11: When all forks and lock calls succeed, the program with the \<open>fcntl\<close> lock never deadlocks,
  can always be continued to its end, and then has printed \<open>counter=4000 expected=4000\<close>, in every
  interleaving of the loads and stores of its four children.
\<close>

theorem mmap_counter_total:
  assumes "mmap_counter_setup None True None = Inr s"
    and "run (guarded_nxt mmap_file_lock_counter) as s = Some t" and "\<forall>a \<in> set as. clean a"
  shows "(\<exists>bs u. list_all clean bs \<and> run (guarded_nxt mmap_file_lock_counter) (as @ bs) s = Some u
         \<and> parent u = Gone)
    \<and> (parent t = Gone \<longrightarrow> \<not> object t \<and> g_out t = ''counter=4000 expected=4000'' @ [newline])"
proof -
  have s: "s = guarded_start mmap_file_lock_counter []"
    using assms(1) by (simp add: mmap_counter_setup_def)
  have "g_line mmap_file_lock_counter
      (g_inc mmap_file_lock_counter * int (g_kids mmap_file_lock_counter * g_iters mmap_file_lock_counter))
    = ''counter=4000 expected=4000'' @ [newline]"
    by (simp add: mmap_file_lock_counter_def fmt_simps)
  with file_counter.counter_result [OF assms(2) [unfolded s] assms(3)] show ?thesis
    by (simp add: s)
qed

lemma fork_run:
  "g_kids P = Suc n \<Longrightarrow> run (guarded_nxt P) [Parent] (guarded_start P l)
     = Some (set_kid 0 (kid_loop P 0) ((guarded_start P l)\<lparr>parent := fork_loop P 1\<rparr>))"
  by (simp add: parent_step_def guarded_start_def fork_loop_def)

theorem mmap_counter_total_witness:
  "\<exists>s t. mmap_counter_setup None True None = Inr s
     \<and> run (guarded_nxt mmap_file_lock_counter) [Parent] s = Some t
     \<and> (\<exists>bs u. run (guarded_nxt mmap_file_lock_counter) ([Parent] @ bs) s = Some u \<and> parent u = Gone)"
proof -
  let ?P = mmap_file_lock_counter
  have 1: "mmap_counter_setup None True None = Inr (guarded_start ?P [])"
    by (simp add: mmap_counter_setup_def)
  have 2: "run (guarded_nxt ?P) [Parent] (guarded_start ?P [])
      = Some (set_kid 0 (kid_loop ?P 0) ((guarded_start ?P [])\<lparr>parent := fork_loop ?P 1\<rparr>))"
    by (rule fork_run [of _ 3]) (simp add: mmap_file_lock_counter_def)
  have 3: "\<forall>a \<in> set [Parent]. clean a" by simp
  show ?thesis using mmap_counter_total [OF 1 2 3] 1 2 by blast
qed

text \<open>
  C12: When all forks succeed, the program with the process-shared mutex never deadlocks, can always
  be continued to its end, and then has printed \<open>shared balance=4000 expected=4000\<close>.
\<close>

theorem shared_balance_total:
  assumes "mutex_setup None True None = Inr s"
    and "run (guarded_nxt process_shared_mutex) as s = Some t" and "\<forall>a \<in> set as. clean a"
  shows "(\<exists>bs u. list_all clean bs \<and> run (guarded_nxt process_shared_mutex) (as @ bs) s = Some u
         \<and> parent u = Gone)
    \<and> (parent t = Gone \<longrightarrow> \<not> object t \<and> g_out t = ''shared balance=4000 expected=4000'' @ [newline])"
proof -
  have s: "s = guarded_start process_shared_mutex None"
    using assms(1) by (simp add: mutex_setup_def)
  have "g_line process_shared_mutex
      (g_inc process_shared_mutex * int (g_kids process_shared_mutex * g_iters process_shared_mutex))
    = ''shared balance=4000 expected=4000'' @ [newline]"
    by (simp add: process_shared_mutex_def fmt_simps)
  with balance.counter_result [OF assms(2) [unfolded s] assms(3)] show ?thesis
    by (simp add: s)
qed

theorem shared_balance_total_witness:
  "\<exists>s t. mutex_setup None True None = Inr s
     \<and> run (guarded_nxt process_shared_mutex) [Parent] s = Some t
     \<and> (\<exists>bs u. run (guarded_nxt process_shared_mutex) ([Parent] @ bs) s = Some u \<and> parent u = Gone)"
proof -
  let ?P = process_shared_mutex
  have 1: "mutex_setup None True None = Inr (guarded_start ?P None)"
    by (simp add: mutex_setup_def)
  have 2: "run (guarded_nxt ?P) [Parent] (guarded_start ?P None)
      = Some (set_kid 0 (kid_loop ?P 0) ((guarded_start ?P None)\<lparr>parent := fork_loop ?P 1\<rparr>))"
    by (rule fork_run [of _ 3]) (simp add: process_shared_mutex_def)
  have 3: "\<forall>a \<in> set [Parent]. clean a" by simp
  show ?thesis using shared_balance_total [OF 1 2 3] 1 2 by blast
qed

text \<open>
  C13: The program with the System V semaphore keeps its counter exact under every failure of a
  fork and of a \<open>semop\<close>, after which the undo of the exiting child frees the semaphore: in every
  run of at most \<open>16023\<close> steps the counter is the number of stores made, no two children are inside
  their critical sections, the run can be continued to the end without further failures, and the number printed there is
  the number of stores.
\<close>

theorem sysv_counter_exact:
  assumes "sysv_guard_setup None None None None = Inr s"
    and "run (guarded_nxt sysv_binary_semaphore_guard) as s = Some t"
  shows "length as \<le> 16023 \<and> cell t = int (all_stores sysv_binary_semaphore_guard t)
    \<and> (inside (kids t i) \<and> inside (kids t k) \<longrightarrow> i = k)
    \<and> (\<exists>bs u. list_all clean bs \<and> run (guarded_nxt sysv_binary_semaphore_guard) (as @ bs) s = Some u
         \<and> parent u = Gone)
    \<and> (parent t = Gone \<longrightarrow> g_out t = ''system-v guarded counter=''
          @ fmt_d (int (all_stores sysv_binary_semaphore_guard t)) @ '' expected=4000'' @ [newline])"
proof -
  let ?P = sysv_binary_semaphore_guard
  have s: "s = guarded_start ?P sem_unlocked" using assms(1) by (simp add: sysv_guard_setup_def)
  have "guarded_msr ?P s = 16023"
    by (simp add: s guarded_msr_def guarded_start_def sysv_binary_semaphore_guard_def fork_loop_def)
  moreover have "g_inc ?P = 1"
    and "g_line ?P c = ''system-v guarded counter='' @ fmt_d c @ '' expected=4000'' @ [newline]" for c
    by (simp_all add: sysv_binary_semaphore_guard_def)
  ultimately show ?thesis
    using sem_counter.counter_exact [OF assms(2) [unfolded s], of i k] by (simp add: s)
qed

theorem sysv_counter_exact_witness:
  "\<exists>s t. sysv_guard_setup None None None None = Inr s
     \<and> run (guarded_nxt sysv_binary_semaphore_guard) [Parent, KidFails 0 EIDRM] s = Some t
     \<and> cell t = int (all_stores sysv_binary_semaphore_guard t)
     \<and> (\<exists>bs u. run (guarded_nxt sysv_binary_semaphore_guard) ([Parent, KidFails 0 EIDRM] @ bs) s = Some u
           \<and> parent u = Gone)"
proof -
  let ?P = sysv_binary_semaphore_guard
  have 1: "sysv_guard_setup None None None None = Inr (guarded_start ?P sem_unlocked)"
    by (simp add: sysv_guard_setup_def)
  obtain t where 2: "run (guarded_nxt ?P) [Parent, KidFails 0 EIDRM] (guarded_start ?P sem_unlocked) = Some t"
    by (auto simp: parent_step_def guarded_start_def fork_loop_def kid_fails_def kid_loop_def
        sysv_binary_semaphore_guard_def)
  show ?thesis using sysv_counter_exact [OF 1 2] 1 2 by blast
qed

text \<open>
  C14: The program with the locks of the open file description loses updates: there is a run in
  which every fork and every lock call succeeds, that ends, and that prints a counter of at most
  1499 instead of the expected 1500.
\<close>

theorem ofd_lost_update:
  "\<exists>s as t. ofd_setup None True None = Inr s \<and> list_all clean as
     \<and> run (guarded_nxt ofd_lock_counter) as s = Some t \<and> parent t = Gone \<and> cell t \<le> 1499
     \<and> g_out t = ''ofd-locked counter='' @ fmt_d (cell t) @ '' expected=1500'' @ [newline]"
proof -
  let ?P = ofd_lock_counter and ?s = "guarded_start ofd_lock_counter []"
  obtain bs t where r: "run (only clean (guarded_nxt ?P)) bs lost_state = Some t" and "guarded_done t"
    using lost.sys.completes_from [OF lost_state_inv] by blast
  then have gone: "parent t = Gone" by (simp add: guarded_done_def)
  have inv: "lost_inv t" using r by (rule lost.sys.inv_reached)
  then have "all_stores ?P t = 1500"
    using all_complete_total [of ?P t] gone by (simp add: lost_inv_def ofd_lock_counter_def)
  with inv have "cell t \<le> 1499" by (simp add: lost_inv_def lagging_def)
  moreover have "g_out t = ''ofd-locked counter='' @ fmt_d (cell t) @ '' expected=1500'' @ [newline]"
    using inv gone by (simp add: lost_inv_def guarded_report_def ofd_lock_counter_def)
  moreover have "run (guarded_nxt ?P) (lost_schedule @ bs) ?s = Some t"
    using run_only_run [OF r] by (simp add: run_append lost_run)
  moreover have "list_all clean (lost_schedule @ bs)"
    using run_only_ok [OF r] by (auto simp: lost_schedule_def list_all_iff)
  moreover have "ofd_setup None True None = Inr ?s" by (simp add: ofd_setup_def)
  ultimately show ?thesis using gone by blast
qed

end
