(* ===== verification/RingSem.thy ===== *)
theory RingSem
  imports Common
begin

text \<open>
  \<open>SharedMemory/posix_shm_ring_sem.c\<close>: a producer and a consumer process that share a ring of eight
  slots in POSIX shared memory, guarded by two counting semaphores and one used as a mutex. Every
  access to the shared memory and every system call is one step of its process, in any
  interleaving; a blocked \<open>sem_wait\<close> or \<open>waitpid\<close> is a step that is not possible.
\<close>

subsection \<open>POSIX semaphores\<close>

definition SEM_VALUE_MAX :: nat where
  "SEM_VALUE_MAX = 2147483647"

text \<open>\<open>sem_post\<close> leaves a semaphore at its maximum alone and fails.\<close>

definition sem_post :: "nat \<Rightarrow> nat" where
  "sem_post v = (if v < SEM_VALUE_MAX then Suc v else v)"

text \<open>
  One turn of the loop of \<open>sem_wait_retry\<close> on a semaphore of value \<open>v\<close>: the call is made to fail
  with an error number, or it decrements a positive value, or it blocks.
\<close>

datatype sem_turn = Acquired nat | Blocked | Retry | Dead halt

definition sem_wait_retry :: "nat \<Rightarrow> errno option \<Rightarrow> sem_turn" where
  "sem_wait_retry v fault =
     (case fault of
        Some e \<Rightarrow> if e \<noteq> EINTR then Dead (die_errno ''sem_wait'' e) else Retry
      | None \<Rightarrow> if v = 0 then Blocked else Acquired (v - 1))"

subsection \<open>State\<close>

definition CAPACITY :: nat where
  "CAPACITY = 8"

definition ITEMS :: nat where
  "ITEMS = 20"

text \<open>The indices \<open>head\<close> and \<open>tail\<close> are C ints that only ever hold values of \<open>% CAPACITY\<close>.\<close>

record ring =
  empty_sem :: nat
  full_sem :: nat
  mutex_sem :: nat
  head :: nat
  tail :: nat
  slots :: "int list"

datatype ppc =
    PWaitEmpty | PWaitMutex | PStore | PAdvance | PPostMutex | PPostFull
  | PWaitChild | PUnlink | PExited | PDead halt

datatype cpc =
    CAbsent | CWaitFull | CWaitMutex | CLoad | CAdvance | CPostMutex | CPostEmpty | CAdd
  | CPrint | CExited | CDead halt

record ring_sys =
  mem :: ring
  ppc :: ppc
  pvalue :: nat \<comment> \<open>the loop variable \<open>value\<close> of the producer\<close>
  cpc :: cpc
  ci :: nat \<comment> \<open>the loop variable \<open>i\<close> of the consumer\<close>
  cvalue :: int
  ctotal :: int
  outp :: string
  linked :: bool \<comment> \<open>the name of the shared memory object exists\<close>
  intr :: nat \<comment> \<open>how many more calls the environment may make fail\<close>

subsection \<open>Set-up\<close>

text \<open>
  The results of \<open>shm_open\<close>, \<open>ftruncate\<close> and \<open>mmap\<close>, and whether \<open>fork\<close> made a child. The program
  tests neither \<open>ftruncate\<close>, without which the first access to the mapping raises a signal, nor
  \<open>fork\<close>. The last argument bounds the injected faults.
\<close>

definition ring_init :: ring where
  "ring_init = \<lparr>empty_sem = CAPACITY, full_sem = 0, mutex_sem = 1, head = 0, tail = 0,
     slots = replicate CAPACITY 0\<rparr>"

definition ring_setup ::
  "errno option \<Rightarrow> bool \<Rightarrow> errno option \<Rightarrow> bool \<Rightarrow> nat \<Rightarrow> ring_sys res" where
  "ring_setup shm_open_res sized mmap_res forked faults =
     (case shm_open_res of
        Some e \<Rightarrow> Inl (die_errno ''shm_open'' e)
      | None \<Rightarrow>
          (case mmap_res of
             Some e \<Rightarrow> Inl (die_errno ''mmap'' e)
           | None \<Rightarrow>
               if \<not> sized then Inl (Killed ''SIGBUS'')
               else Inr \<lparr>mem = ring_init, ppc = PWaitEmpty, pvalue = 1,
                         cpc = (if forked then CWaitFull else CAbsent), ci = 0, cvalue = 0,
                         ctotal = 0, outp = [], linked = True, intr = faults\<rparr>))"

subsection \<open>Steps\<close>

fun on_turn :: "sem_turn \<Rightarrow> (nat \<Rightarrow> ring_sys) \<Rightarrow> (halt \<Rightarrow> ring_sys) \<Rightarrow> ring_sys \<Rightarrow> ring_sys option" where
  "on_turn (Acquired v) k d s = Some (k v)"
| "on_turn Blocked k d s = None"
| "on_turn Retry k d s = Some s"
| "on_turn (Dead h) k d s = Some (d h)"

definition producer_step :: "errno option \<Rightarrow> ring_sys \<Rightarrow> ring_sys option" where
  "producer_step fault s =
     (let r = mem s in
      case ppc s of
        PWaitEmpty \<Rightarrow>
          on_turn (sem_wait_retry (empty_sem r) fault)
            (\<lambda>v. s\<lparr>mem := r\<lparr>empty_sem := v\<rparr>, ppc := PWaitMutex\<rparr>) (\<lambda>h. s\<lparr>ppc := PDead h\<rparr>) s
      | PWaitMutex \<Rightarrow>
          on_turn (sem_wait_retry (mutex_sem r) fault)
            (\<lambda>v. s\<lparr>mem := r\<lparr>mutex_sem := v\<rparr>, ppc := PStore\<rparr>) (\<lambda>h. s\<lparr>ppc := PDead h\<rparr>) s
      | PWaitChild \<Rightarrow>
          (case fault of
             Some e \<Rightarrow> Some (if e \<noteq> EINTR then s\<lparr>ppc := PDead (die_errno ''waitpid'' e)\<rparr> else s)
           | None \<Rightarrow>
               (case cpc s of
                  CExited \<Rightarrow> Some (s\<lparr>ppc := PUnlink\<rparr>)
                | CDead h \<Rightarrow> Some (s\<lparr>ppc := PUnlink\<rparr>)
                | CAbsent \<Rightarrow> Some (s\<lparr>ppc := PDead (die_errno ''waitpid'' ECHILD)\<rparr>)
                | _ \<Rightarrow> None))
      | pc \<Rightarrow>
          (if fault \<noteq> None then None
           else
             (case pc of
                PStore \<Rightarrow>
                  Some (s\<lparr>mem := r\<lparr>slots := (slots r)[tail r := int (pvalue s)]\<rparr>, ppc := PAdvance\<rparr>)
              | PAdvance \<Rightarrow>
                  Some (s\<lparr>mem := r\<lparr>tail := (tail r + 1) mod CAPACITY\<rparr>, ppc := PPostMutex\<rparr>)
              | PPostMutex \<Rightarrow>
                  Some (s\<lparr>mem := r\<lparr>mutex_sem := sem_post (mutex_sem r)\<rparr>, ppc := PPostFull\<rparr>)
              | PPostFull \<Rightarrow>
                  Some (s\<lparr>mem := r\<lparr>full_sem := sem_post (full_sem r)\<rparr>, pvalue := pvalue s + 1,
                          ppc := (if pvalue s + 1 \<le> ITEMS then PWaitEmpty else PWaitChild)\<rparr>)
              | PUnlink \<Rightarrow> Some (s\<lparr>linked := False, ppc := PExited\<rparr>)
              | _ \<Rightarrow> None)))"

definition consumer_step :: "errno option \<Rightarrow> ring_sys \<Rightarrow> ring_sys option" where
  "consumer_step fault s =
     (let r = mem s in
      case cpc s of
        CWaitFull \<Rightarrow>
          on_turn (sem_wait_retry (full_sem r) fault)
            (\<lambda>v. s\<lparr>mem := r\<lparr>full_sem := v\<rparr>, cpc := CWaitMutex\<rparr>) (\<lambda>h. s\<lparr>cpc := CDead h\<rparr>) s
      | CWaitMutex \<Rightarrow>
          on_turn (sem_wait_retry (mutex_sem r) fault)
            (\<lambda>v. s\<lparr>mem := r\<lparr>mutex_sem := v\<rparr>, cpc := CLoad\<rparr>) (\<lambda>h. s\<lparr>cpc := CDead h\<rparr>) s
      | pc \<Rightarrow>
          (if fault \<noteq> None then None
           else
             (case pc of
                CLoad \<Rightarrow> Some (s\<lparr>cvalue := slots r ! head r, cpc := CAdvance\<rparr>)
              | CAdvance \<Rightarrow>
                  Some (s\<lparr>mem := r\<lparr>head := (head r + 1) mod CAPACITY\<rparr>, cpc := CPostMutex\<rparr>)
              | CPostMutex \<Rightarrow>
                  Some (s\<lparr>mem := r\<lparr>mutex_sem := sem_post (mutex_sem r)\<rparr>, cpc := CPostEmpty\<rparr>)
              | CPostEmpty \<Rightarrow>
                  Some (s\<lparr>mem := r\<lparr>empty_sem := sem_post (empty_sem r)\<rparr>, cpc := CAdd\<rparr>)
              | CAdd \<Rightarrow>
                  Some (s\<lparr>ctotal := ctotal s + cvalue s, ci := ci s + 1,
                          cpc := (if ci s + 1 < ITEMS then CWaitFull else CPrint)\<rparr>)
              | CPrint \<Rightarrow>
                  Some (s\<lparr>outp := outp s @ ''consumer total='' @ fmt_d (ctotal s) @ [newline],
                          cpc := CExited\<rparr>)
              | _ \<Rightarrow> None)))"

datatype proc = Producer | Consumer

datatype ring_act = Move proc | Fault proc errno

fun ring_nxt :: "ring_act \<Rightarrow> ring_sys \<Rightarrow> ring_sys option" where
  "ring_nxt (Move Producer) s = producer_step None s"
| "ring_nxt (Move Consumer) s = consumer_step None s"
| "ring_nxt (Fault Producer e) s =
     (if 0 < intr s then producer_step (Some e) (s\<lparr>intr := intr s - 1\<rparr>) else None)"
| "ring_nxt (Fault Consumer e) s =
     (if 0 < intr s then consumer_step (Some e) (s\<lparr>intr := intr s - 1\<rparr>) else None)"

text \<open>The errors \<open>sem_wait\<close> and \<open>waitpid\<close> have on valid arguments: the interruption by a signal.\<close>

fun interruption :: "ring_act \<Rightarrow> bool" where
  "interruption (Move p) = True"
| "interruption (Fault p e) = (e = EINTR)"

subsection \<open>Progress counts\<close>

text \<open>How many items each process has taken through each stage of its loop.\<close>

definition count :: "bool \<Rightarrow> nat" where
  "count b = (if b then 1 else 0)"

definition p_taken :: "ring_sys \<Rightarrow> nat" where
  "p_taken s = pvalue s - 1 + count (ppc s \<in> {PWaitMutex, PStore, PAdvance, PPostMutex, PPostFull})"

definition p_stored :: "ring_sys \<Rightarrow> nat" where
  "p_stored s = pvalue s - 1 + count (ppc s \<in> {PAdvance, PPostMutex, PPostFull})"

definition p_advanced :: "ring_sys \<Rightarrow> nat" where
  "p_advanced s = pvalue s - 1 + count (ppc s \<in> {PPostMutex, PPostFull})"

definition c_claimed :: "ring_sys \<Rightarrow> nat" where
  "c_claimed s =
     ci s + count (cpc s \<in> {CWaitMutex, CLoad, CAdvance, CPostMutex, CPostEmpty, CAdd})"

definition c_loaded :: "ring_sys \<Rightarrow> nat" where
  "c_loaded s = ci s + count (cpc s \<in> {CAdvance, CPostMutex, CPostEmpty, CAdd})"

definition c_advanced :: "ring_sys \<Rightarrow> nat" where
  "c_advanced s = ci s + count (cpc s \<in> {CPostMutex, CPostEmpty, CAdd})"

definition c_freed :: "ring_sys \<Rightarrow> nat" where
  "c_freed s = ci s + count (cpc s = CAdd)"

definition p_critical :: "ring_sys \<Rightarrow> bool" where
  "p_critical s \<longleftrightarrow> ppc s \<in> {PStore, PAdvance, PPostMutex}"

definition c_critical :: "ring_sys \<Rightarrow> bool" where
  "c_critical s \<longleftrightarrow> cpc s \<in> {CLoad, CAdvance, CPostMutex}"

lemmas ring_counts = count_def p_taken_def p_stored_def p_advanced_def c_claimed_def c_loaded_def
  c_advanced_def c_freed_def p_critical_def c_critical_def

text \<open>The parts of the invariant: the loops, the semaphores, the indices and the slots.\<close>

definition loops_ok :: "ring_sys \<Rightarrow> bool" where
  "loops_ok s \<longleftrightarrow> 1 \<le> pvalue s \<and> pvalue s \<le> 21
     \<and> (pvalue s = 21 \<longleftrightarrow> ppc s \<in> {PWaitChild, PUnlink, PExited})
     \<and> ci s \<le> 20 \<and> (ci s = 20 \<longleftrightarrow> cpc s \<in> {CPrint, CExited})
     \<and> cpc s \<noteq> CAbsent \<and> (\<forall>h. cpc s \<noteq> CDead h) \<and> (\<forall>h. ppc s \<noteq> PDead h)
     \<and> (ppc s \<in> {PUnlink, PExited} \<longrightarrow> cpc s = CExited)
     \<and> linked s = (ppc s \<noteq> PExited)"

definition sems_ok :: "ring_sys \<Rightarrow> bool" where
  "sems_ok s \<longleftrightarrow> mutex_sem (mem s) + count (p_critical s) + count (c_critical s) = 1
     \<and> empty_sem (mem s) + p_taken s = 8 + c_freed s
     \<and> full_sem (mem s) + c_claimed s = pvalue s - 1"

definition indices_ok :: "ring_sys \<Rightarrow> bool" where
  "indices_ok s \<longleftrightarrow> length (slots (mem s)) = 8
     \<and> tail (mem s) = p_advanced s mod 8 \<and> head (mem s) = c_advanced s mod 8"

definition slots_ok :: "ring_sys \<Rightarrow> bool" where
  "slots_ok s \<longleftrightarrow>
     (\<forall>k. c_freed s \<le> k \<longrightarrow> k < p_stored s \<longrightarrow> slots (mem s) ! (k mod 8) = int k + 1)"

definition sums_ok :: "ring_sys \<Rightarrow> bool" where
  "sums_ok s \<longleftrightarrow> 2 * ctotal s = int (ci s) * (int (ci s) + 1)
     \<and> (cpc s \<in> {CAdvance, CPostMutex, CPostEmpty, CAdd} \<longrightarrow> cvalue s = int (ci s) + 1)
     \<and> outp s = (if cpc s = CExited then ''consumer total=210'' @ [newline] else [])"

definition ring_inv :: "ring_sys \<Rightarrow> bool" where
  "ring_inv s \<longleftrightarrow> loops_ok s \<and> sems_ok s \<and> indices_ok s \<and> slots_ok s \<and> sums_ok s"

subsection \<open>The moves\<close>

lemma sem_wait_cases:
  "sem_wait_retry v None = (if v = 0 then Blocked else Acquired (v - 1))"
  "sem_wait_retry v (Some EINTR) = Retry"
  by (simp_all add: sem_wait_retry_def)

lemma producer_interrupted:
  "producer_step (Some EINTR) s = Some t \<Longrightarrow> t = s"
  by (cases "ppc s") (simp_all add: producer_step_def sem_wait_cases)

lemma consumer_interrupted:
  "consumer_step (Some EINTR) s = Some t \<Longrightarrow> t = s"
  by (cases "cpc s") (simp_all add: consumer_step_def sem_wait_cases)

text \<open>What a step of one process leaves alone of the other.\<close>

lemma consumer_side:
  assumes "cpc t = cpc s" and "ci t = ci s"
  shows "c_claimed t = c_claimed s" "c_loaded t = c_loaded s" "c_advanced t = c_advanced s"
    "c_freed t = c_freed s" "c_critical t = c_critical s"
  using assms by (simp_all add: ring_counts)

lemma producer_side:
  assumes "ppc t = ppc s" and "pvalue t = pvalue s"
  shows "p_taken t = p_taken s" "p_stored t = p_stored s" "p_advanced t = p_advanced s"
    "p_critical t = p_critical s"
  using assms by (simp_all add: ring_counts)

lemma producer_keeps:
  "producer_step None s = Some t \<Longrightarrow>
     cpc t = cpc s \<and> ci t = ci s \<and> cvalue t = cvalue s \<and> ctotal t = ctotal s \<and> outp t = outp s
     \<and> intr t = intr s"
  by (cases "ppc s")
    (auto simp: producer_step_def sem_wait_cases Let_def split: if_splits cpc.splits)

lemma consumer_keeps:
  "consumer_step None s = Some t \<Longrightarrow>
     ppc t = ppc s \<and> pvalue t = pvalue s \<and> linked t = linked s \<and> intr t = intr s"
  by (cases "cpc s") (auto simp: consumer_step_def sem_wait_cases Let_def split: if_splits)


text \<open>The moves of the producer and of the consumer, one case for each place in their loops.\<close>

lemma producer_stepE:
  assumes "producer_step None s = Some t"
  obtains
    (empty) "ppc s = PWaitEmpty" "0 < empty_sem (mem s)"
      "t = s\<lparr>mem := (mem s)\<lparr>empty_sem := empty_sem (mem s) - 1\<rparr>, ppc := PWaitMutex\<rparr>"
  | (lock) "ppc s = PWaitMutex" "0 < mutex_sem (mem s)"
      "t = s\<lparr>mem := (mem s)\<lparr>mutex_sem := mutex_sem (mem s) - 1\<rparr>, ppc := PStore\<rparr>"
  | (store) "ppc s = PStore"
      "t = s\<lparr>mem := (mem s)\<lparr>slots := (slots (mem s))[tail (mem s) := int (pvalue s)]\<rparr>,
             ppc := PAdvance\<rparr>"
  | (advance) "ppc s = PAdvance"
      "t = s\<lparr>mem := (mem s)\<lparr>tail := (tail (mem s) + 1) mod CAPACITY\<rparr>, ppc := PPostMutex\<rparr>"
  | (unlock) "ppc s = PPostMutex"
      "t = s\<lparr>mem := (mem s)\<lparr>mutex_sem := sem_post (mutex_sem (mem s))\<rparr>, ppc := PPostFull\<rparr>"
  | (full) "ppc s = PPostFull"
      "t = s\<lparr>mem := (mem s)\<lparr>full_sem := sem_post (full_sem (mem s))\<rparr>, pvalue := pvalue s + 1,
             ppc := (if pvalue s + 1 \<le> ITEMS then PWaitEmpty else PWaitChild)\<rparr>"
  | (child) "ppc s = PWaitChild" "cpc s = CExited \<or> (\<exists>h. cpc s = CDead h)" "t = s\<lparr>ppc := PUnlink\<rparr>"
  | (nochild) "ppc s = PWaitChild" "cpc s = CAbsent"
      "t = s\<lparr>ppc := PDead (die_errno ''waitpid'' ECHILD)\<rparr>"
  | (unlink) "ppc s = PUnlink" "t = s\<lparr>linked := False, ppc := PExited\<rparr>"
proof (cases "ppc s")
  case PWaitEmpty
  show thesis
    by (rule empty) (use PWaitEmpty assms in
        \<open>simp_all add: producer_step_def sem_wait_cases Let_def split: if_splits\<close>)
next
  case PWaitMutex
  show thesis
    by (rule lock) (use PWaitMutex assms in
        \<open>simp_all add: producer_step_def sem_wait_cases Let_def split: if_splits\<close>)
next
  case PStore
  show thesis
    by (rule store) (use PStore assms in
        \<open>simp_all add: producer_step_def sem_wait_cases Let_def split: if_splits\<close>)
next
  case PAdvance
  show thesis
    by (rule advance) (use PAdvance assms in
        \<open>simp_all add: producer_step_def sem_wait_cases Let_def split: if_splits\<close>)
next
  case PPostMutex
  show thesis
    by (rule unlock) (use PPostMutex assms in
        \<open>simp_all add: producer_step_def sem_wait_cases Let_def split: if_splits\<close>)
next
  case PPostFull
  show thesis
    by (rule full) (use PPostFull assms in
        \<open>simp_all add: producer_step_def sem_wait_cases Let_def split: if_splits\<close>)
next
  case PUnlink
  show thesis
    by (rule unlink) (use PUnlink assms in
        \<open>simp_all add: producer_step_def sem_wait_cases Let_def split: if_splits\<close>)
next
  case PWaitChild
  show thesis
  proof (cases "cpc s = CAbsent")
    case True
    then show thesis
      by (intro nochild) (use PWaitChild assms in \<open>simp_all add: producer_step_def\<close>)
  next
    case False
    show thesis
      by (rule child) (use False PWaitChild assms in
          \<open>simp_all add: producer_step_def split: cpc.splits\<close>)
  qed
next
  case PExited
  with assms have False by (simp add: producer_step_def)
  then show thesis ..
next
  case (PDead h)
  with assms have False by (simp add: producer_step_def)
  then show thesis ..
qed

lemma consumer_stepE:
  assumes "consumer_step None s = Some t"
  obtains
    (full) "cpc s = CWaitFull" "0 < full_sem (mem s)"
      "t = s\<lparr>mem := (mem s)\<lparr>full_sem := full_sem (mem s) - 1\<rparr>, cpc := CWaitMutex\<rparr>"
  | (lock) "cpc s = CWaitMutex" "0 < mutex_sem (mem s)"
      "t = s\<lparr>mem := (mem s)\<lparr>mutex_sem := mutex_sem (mem s) - 1\<rparr>, cpc := CLoad\<rparr>"
  | (load) "cpc s = CLoad" "t = s\<lparr>cvalue := slots (mem s) ! head (mem s), cpc := CAdvance\<rparr>"
  | (advance) "cpc s = CAdvance"
      "t = s\<lparr>mem := (mem s)\<lparr>head := (head (mem s) + 1) mod CAPACITY\<rparr>, cpc := CPostMutex\<rparr>"
  | (unlock) "cpc s = CPostMutex"
      "t = s\<lparr>mem := (mem s)\<lparr>mutex_sem := sem_post (mutex_sem (mem s))\<rparr>, cpc := CPostEmpty\<rparr>"
  | (empty) "cpc s = CPostEmpty"
      "t = s\<lparr>mem := (mem s)\<lparr>empty_sem := sem_post (empty_sem (mem s))\<rparr>, cpc := CAdd\<rparr>"
  | (add) "cpc s = CAdd"
      "t = s\<lparr>ctotal := ctotal s + cvalue s, ci := ci s + 1,
             cpc := (if ci s + 1 < ITEMS then CWaitFull else CPrint)\<rparr>"
  | (print) "cpc s = CPrint"
      "t = s\<lparr>outp := outp s @ ''consumer total='' @ fmt_d (ctotal s) @ [newline], cpc := CExited\<rparr>"
proof (cases "cpc s")
  case CWaitFull
  show thesis
    by (rule full) (use CWaitFull assms in
        \<open>simp_all add: consumer_step_def sem_wait_cases Let_def split: if_splits\<close>)
next
  case CWaitMutex
  show thesis
    by (rule lock) (use CWaitMutex assms in
        \<open>simp_all add: consumer_step_def sem_wait_cases Let_def split: if_splits\<close>)
next
  case CLoad
  show thesis
    by (rule load) (use CLoad assms in
        \<open>simp_all add: consumer_step_def sem_wait_cases Let_def split: if_splits\<close>)
next
  case CAdvance
  show thesis
    by (rule advance) (use CAdvance assms in
        \<open>simp_all add: consumer_step_def sem_wait_cases Let_def split: if_splits\<close>)
next
  case CPostMutex
  show thesis
    by (rule unlock) (use CPostMutex assms in
        \<open>simp_all add: consumer_step_def sem_wait_cases Let_def split: if_splits\<close>)
next
  case CPostEmpty
  show thesis
    by (rule empty) (use CPostEmpty assms in
        \<open>simp_all add: consumer_step_def sem_wait_cases Let_def split: if_splits\<close>)
next
  case CAdd
  show thesis
    by (rule add) (use CAdd assms in
        \<open>simp_all add: consumer_step_def sem_wait_cases Let_def split: if_splits\<close>)
next
  case CPrint
  show thesis
    by (rule print) (use CPrint assms in
        \<open>simp_all add: consumer_step_def sem_wait_cases Let_def split: if_splits\<close>)
next
  case CAbsent
  with assms have False by (simp add: consumer_step_def)
  then show thesis ..
next
  case CExited
  with assms have False by (simp add: consumer_step_def)
  then show thesis ..
next
  case (CDead h)
  with assms have False by (simp add: consumer_step_def)
  then show thesis ..
qed

lemma loops_ok_producer:
  assumes "loops_ok s" and "producer_step None s = Some t"
  shows "loops_ok t"
  using assms(2) by (cases rule: producer_stepE) (use assms(1) in \<open>auto simp: loops_ok_def ITEMS_def\<close>)

lemma loops_ok_consumer:
  assumes "loops_ok s" and "consumer_step None s = Some t"
  shows "loops_ok t"
  using assms(2) by (cases rule: consumer_stepE) (use assms(1) in \<open>auto simp: loops_ok_def ITEMS_def\<close>)

subsection \<open>The invariant is kept\<close>

lemma sems_ok_producer:
  assumes "loops_ok s" and "sems_ok s" and step: "producer_step None s = Some t"
  shows "sems_ok t"
proof -
  have b: "pvalue s \<le> 21" "1 \<le> pvalue s" using assms(1) by (simp_all add: loops_ok_def)
  note same = consumer_side [of t s] producer_keeps [OF step]
  from step show ?thesis
    by (cases rule: producer_stepE)
      (use b assms(2) same in \<open>auto simp: sems_ok_def p_taken_def p_critical_def
        count_def sem_post_def SEM_VALUE_MAX_def\<close>)
qed

lemma sems_ok_consumer:
  assumes "loops_ok s" and "sems_ok s" and step: "consumer_step None s = Some t"
  shows "sems_ok t"
proof -
  have b: "pvalue s \<le> 21" "1 \<le> pvalue s" "ci s \<le> 20" using assms(1) by (simp_all add: loops_ok_def)
  note same = producer_side [of t s] consumer_keeps [OF step]
  from step show ?thesis
    by (cases rule: consumer_stepE)
      (use b assms(2) same in \<open>auto simp: sems_ok_def c_freed_def c_claimed_def c_critical_def
        count_def sem_post_def SEM_VALUE_MAX_def\<close>)
qed

lemma indices_ok_producer:
  assumes "loops_ok s" and "indices_ok s" and step: "producer_step None s = Some t"
  shows "indices_ok t"
proof -
  have b: "1 \<le> pvalue s" using assms(1) by (simp_all add: loops_ok_def)
  note same = consumer_side [of t s] producer_keeps [OF step]
  from step show ?thesis
    by (cases rule: producer_stepE)
      (use b assms(2) same in \<open>simp_all add: indices_ok_def p_advanced_def
        count_def CAPACITY_def mod_Suc_eq\<close>)
qed

lemma indices_ok_consumer:
  assumes "indices_ok s" and step: "consumer_step None s = Some t"
  shows "indices_ok t"
proof -
  note same = producer_side [of t s] consumer_keeps [OF step]
  from step show ?thesis
    by (cases rule: consumer_stepE)
      (use assms(1) same in \<open>simp_all add: indices_ok_def c_advanced_def
        count_def CAPACITY_def mod_Suc_eq\<close>)
qed

text \<open>
  The consumer loads a slot that holds the item whose number it is about to take, and the producer
  stores into a slot whose item has been taken.
\<close>

lemma stages:
  assumes "ring_inv s"
  shows "c_freed s \<le> c_advanced s" "c_advanced s \<le> c_loaded s" "c_loaded s \<le> c_claimed s"
    "c_claimed s \<le> pvalue s - 1" "pvalue s - 1 \<le> p_advanced s" "p_advanced s \<le> p_stored s"
    "p_stored s \<le> p_taken s" "p_taken s \<le> 8 + c_freed s"
proof -
  show "c_claimed s \<le> pvalue s - 1" and "p_taken s \<le> 8 + c_freed s"
    using assms by (auto simp: ring_inv_def sems_ok_def)
qed (simp_all add: c_freed_def c_advanced_def c_loaded_def c_claimed_def p_advanced_def
  p_stored_def p_taken_def count_def)

lemma mod8_distinct: "k < n \<Longrightarrow> n < k + 8 \<Longrightarrow> k mod 8 \<noteq> n mod (8::nat)"
  using mod_eq_dvd_iff_nat [of k n 8] by (auto dest: dvd_imp_le)

lemma slots_ok_producer:
  assumes inv: "ring_inv s" and step: "producer_step None s = Some t"
  shows "slots_ok t"
proof -
  have sl: "slots_ok s" and ix: "indices_ok s" and b: "1 \<le> pvalue s"
    using inv by (simp_all add: ring_inv_def loops_ok_def)
  have load: "c_freed t = c_freed s"
    using consumer_side [of t s] producer_keeps [OF step] by simp
  from step show ?thesis
  proof (cases rule: producer_stepE)
    case store
    have tl: "tail (mem s) = (pvalue s - 1) mod 8" and len: "length (slots (mem s)) = 8"
      using ix store(1) by (simp_all add: indices_ok_def p_advanced_def count_def)
    have old: "p_stored s = pvalue s - 1" and new: "p_stored t = pvalue s"
      using store b by (simp_all add: p_stored_def count_def)
    have "slots (mem t) ! (k mod 8) = int k + 1" if k: "c_freed s \<le> k" "k < pvalue s" for k
    proof (cases "k = pvalue s - 1")
      case True
      then show ?thesis using store(2) tl len b by simp
    next
      case False
      have "p_taken s = pvalue s" using store(1) b by (simp add: p_taken_def count_def)
      then have "pvalue s - 1 < k + 8" using stages [OF inv] k by linarith
      with False k have "k mod 8 \<noteq> (pvalue s - 1) mod 8" by (intro mod8_distinct) auto
      then show ?thesis using store(2) tl sl k False old by (simp add: slots_ok_def)
    qed
    then show ?thesis by (simp add: slots_ok_def load new)
  qed (use sl load b in \<open>simp_all add: slots_ok_def p_stored_def count_def\<close>)
qed

lemma slots_ok_consumer:
  assumes "slots_ok s" and step: "consumer_step None s = Some t"
  shows "slots_ok t"
proof -
  note same = producer_side [of t s] consumer_keeps [OF step]
  from step show ?thesis
    by (cases rule: consumer_stepE)
      (use assms(1) same in \<open>simp_all add: slots_ok_def c_freed_def count_def\<close>)
qed

lemma sums_ok_producer:
  assumes "sums_ok s" and step: "producer_step None s = Some t"
  shows "sums_ok t"
  using assms(1) producer_keeps [OF step] by (simp add: sums_ok_def)

lemma sums_ok_consumer:
  assumes inv: "ring_inv s" and step: "consumer_step None s = Some t"
  shows "sums_ok t"
proof -
  have su: "sums_ok s" using inv by (simp add: ring_inv_def)
  from step show ?thesis
  proof (cases rule: consumer_stepE)
    case load
    have "head (mem s) = ci s mod 8" and c: "c_freed s = ci s"
      using inv load(1)
      by (simp_all add: ring_inv_def indices_ok_def c_advanced_def c_freed_def count_def)
    moreover have "c_claimed s = ci s + 1" using load(1) by (simp add: c_claimed_def count_def)
    then have "ci s < p_stored s" using stages [OF inv] by linarith
    ultimately have "slots (mem s) ! head (mem s) = int (ci s) + 1"
      using inv by (auto simp: ring_inv_def slots_ok_def)
    with su load show ?thesis by (simp add: sums_ok_def)
  next
    case add
    with su show ?thesis by (auto simp: sums_ok_def algebra_simps)
  next
    case print
    moreover have "ci s = 20" using inv print(1) by (simp add: ring_inv_def loops_ok_def)
    ultimately show ?thesis using su by (simp add: sums_ok_def fmt_simps)
  qed (use su in \<open>simp_all add: sums_ok_def\<close>)
qed

lemma ring_inv_intr [simp]: "ring_inv (s\<lparr>intr := n\<rparr>) = ring_inv s"
  by (simp add: ring_inv_def loops_ok_def sems_ok_def indices_ok_def slots_ok_def sums_ok_def
      ring_counts)

lemma fault_intr:
  "only interruption ring_nxt (Fault p e) s = Some t \<Longrightarrow> 0 < intr s \<and> t = s\<lparr>intr := intr s - 1\<rparr>"
  by (cases p)
    (auto simp: only_def dest: producer_interrupted consumer_interrupted split: if_splits)

lemma ring_inv_step:
  assumes "ring_inv s" and "only interruption ring_nxt a s = Some t"
  shows "ring_inv t"
proof (cases a)
  case (Move p)
  show ?thesis
  proof (cases p)
    case Producer
    with assms Move have "producer_step None s = Some t" by (simp add: only_def)
    then show ?thesis
      using assms(1) loops_ok_producer sems_ok_producer indices_ok_producer slots_ok_producer
        sums_ok_producer unfolding ring_inv_def by blast
  next
    case Consumer
    with assms Move have "consumer_step None s = Some t" by (simp add: only_def)
    then show ?thesis
      using assms(1) loops_ok_consumer sems_ok_consumer indices_ok_consumer slots_ok_consumer
        sums_ok_consumer unfolding ring_inv_def by blast
  qed
next
  case (Fault p e)
  with assms fault_intr have "t = s\<lparr>intr := intr s - 1\<rparr>" by blast
  with assms(1) show ?thesis by simp
qed

subsection \<open>Termination\<close>

fun p_rank :: "ppc \<Rightarrow> nat" where
  "p_rank PWaitEmpty = 10"
| "p_rank PWaitMutex = 9"
| "p_rank PStore = 8"
| "p_rank PAdvance = 7"
| "p_rank PPostMutex = 6"
| "p_rank PPostFull = 5"
| "p_rank PWaitChild = 2"
| "p_rank PUnlink = 1"
| "p_rank PExited = 0"
| "p_rank (PDead h) = 0"

fun c_rank :: "cpc \<Rightarrow> nat" where
  "c_rank CWaitFull = 10"
| "c_rank CWaitMutex = 9"
| "c_rank CLoad = 8"
| "c_rank CAdvance = 7"
| "c_rank CPostMutex = 6"
| "c_rank CPostEmpty = 5"
| "c_rank CAdd = 4"
| "c_rank CPrint = 1"
| "c_rank CExited = 0"
| "c_rank CAbsent = 0"
| "c_rank (CDead h) = 0"

definition ring_msr :: "ring_sys \<Rightarrow> nat" where
  "ring_msr s = 6 * (21 - pvalue s) + p_rank (ppc s) + 7 * (20 - ci s) + c_rank (cpc s) + intr s"

lemma ring_decreases:
  assumes inv: "ring_inv s" and step: "only interruption ring_nxt a s = Some t"
  shows "ring_msr t < ring_msr s"
proof (cases a)
  case (Move p)
  have b: "loops_ok s" using inv by (simp add: ring_inv_def)
  show ?thesis
  proof (cases p)
    case Producer
    with step Move have m: "producer_step None s = Some t" by (simp add: only_def)
    then show ?thesis
      by (cases rule: producer_stepE)
        (use producer_keeps [OF m] b in \<open>auto simp: ring_msr_def loops_ok_def ITEMS_def\<close>)
  next
    case Consumer
    with step Move have m: "consumer_step None s = Some t" by (simp add: only_def)
    then show ?thesis
      by (cases rule: consumer_stepE)
        (use consumer_keeps [OF m] b in \<open>auto simp: ring_msr_def loops_ok_def ITEMS_def\<close>)
  qed
next
  case (Fault p e)
  then show ?thesis using step fault_intr by (fastforce simp: ring_msr_def)
qed

text \<open>A process that is not waiting for the other can move.\<close>

lemma producer_can:
  assumes "ring_inv s" and "ppc s \<noteq> PExited"
    and "ppc s = PWaitEmpty \<Longrightarrow> 0 < empty_sem (mem s)" and "ppc s = PWaitMutex \<Longrightarrow> \<not> c_critical s"
    and "ppc s = PWaitChild \<Longrightarrow> cpc s = CExited"
  shows "\<exists>t. ring_nxt (Move Producer) s = Some t"
proof -
  have "mutex_sem (mem s) = 1" if "ppc s = PWaitMutex"
    using assms(1) assms(4) [OF that] that by (simp add: ring_inv_def sems_ok_def p_critical_def count_def)
  then show ?thesis
    using assms
    by (cases "ppc s") (auto simp: producer_step_def sem_wait_cases Let_def ring_inv_def loops_ok_def)
qed

lemma consumer_can:
  assumes "ring_inv s" and "cpc s \<noteq> CExited"
    and "cpc s = CWaitFull \<Longrightarrow> 0 < full_sem (mem s)" and "cpc s = CWaitMutex \<Longrightarrow> \<not> p_critical s"
  shows "\<exists>t. ring_nxt (Move Consumer) s = Some t"
proof -
  have "mutex_sem (mem s) = 1" if "cpc s = CWaitMutex"
    using assms(1) assms(4) [OF that] that by (simp add: ring_inv_def sems_ok_def c_critical_def count_def)
  then show ?thesis
    using assms
    by (cases "cpc s") (auto simp: consumer_step_def sem_wait_cases Let_def ring_inv_def loops_ok_def)
qed

definition ring_done :: "ring_sys \<Rightarrow> bool" where
  "ring_done s \<longleftrightarrow> ppc s = PExited"

lemma ring_progress:
  assumes inv: "ring_inv s" and nd: "\<not> ring_done s"
  shows "\<exists>a t. only interruption ring_nxt a s = Some t"
proof -
  have sems: "sems_ok s" and loops: "loops_ok s" using inv by (simp_all add: ring_inv_def)
  have "(\<exists>t. ring_nxt (Move Producer) s = Some t) \<or> (\<exists>t. ring_nxt (Move Consumer) s = Some t)"
  proof (cases "ppc s = PWaitMutex \<and> c_critical s")
    case True
    then have "cpc s \<in> {CLoad, CAdvance, CPostMutex}" by (simp add: c_critical_def)
    then show ?thesis by (intro disjI2 consumer_can [OF inv]) auto
  next
    case nm: False
    show ?thesis
    proof (cases "ppc s = PWaitEmpty \<and> empty_sem (mem s) = 0 \<or> ppc s = PWaitChild \<and> cpc s \<noteq> CExited")
      case True
      then have w: "ppc s \<in> {PWaitEmpty, PWaitChild}" by auto
      have "cpc s = CWaitFull \<Longrightarrow> 0 < full_sem (mem s)" and "cpc s \<noteq> CExited"
        using True sems loops
        by (auto simp: sems_ok_def loops_ok_def p_taken_def c_freed_def c_claimed_def count_def)
      then show ?thesis
        using w by (intro disjI2 consumer_can [OF inv]) (auto simp: p_critical_def)
    next
      case False
      then show ?thesis
        using nm nd by (intro disjI1 producer_can [OF inv]) (auto simp: ring_done_def)
    qed
  qed
  then show ?thesis
    by (metis interruption.simps(1) only_def)
qed

text \<open>The state the two processes start from when the set-up and the fork succeed.\<close>

definition ring_start :: "nat \<Rightarrow> ring_sys" where
  "ring_start n = \<lparr>mem = ring_init, ppc = PWaitEmpty, pvalue = 1, cpc = CWaitFull, ci = 0,
     cvalue = 0, ctotal = 0, outp = [], linked = True, intr = n\<rparr>"

lemma ring_setup_start: "ring_setup None True None True n = Inr (ring_start n)"
  by (simp add: ring_setup_def ring_start_def)

lemma ring_start_inv: "ring_inv (ring_start n)"
  by (simp add: ring_inv_def loops_ok_def sems_ok_def indices_ok_def slots_ok_def sums_ok_def
      ring_counts ring_start_def ring_init_def CAPACITY_def)

interpretation ring: terminating_system "only interruption ring_nxt" "ring_start n" ring_inv
  ring_msr ring_done for n
  by unfold_locales (fact ring_start_inv ring_inv_step ring_decreases ring_progress)+

subsection \<open>Refinement of a bounded queue\<close>

text \<open>
  The specification: a first-in first-out queue of limited capacity. The ring implements it: the
  items between \<open>head\<close> and \<open>tail\<close> are its contents, moving \<open>tail\<close> puts, moving \<open>head\<close> gets.
\<close>

datatype queue_event = Put int | Get int | Internal

fun queue_spec :: "nat \<Rightarrow> queue_event \<Rightarrow> int list \<Rightarrow> int list option" where
  "queue_spec cap (Put v) q = (if length q < cap then Some (q @ [v]) else None)"
| "queue_spec cap (Get v) q =
     (case q of [] \<Rightarrow> None | x # r \<Rightarrow> if x = v then Some r else None)"
| "queue_spec cap Internal q = Some q"

definition ring_event :: "ring_act \<Rightarrow> ring_sys \<Rightarrow> queue_event" where
  "ring_event a s =
     (if a = Move Producer \<and> ppc s = PAdvance then Put (int (pvalue s))
      else if a = Move Consumer \<and> cpc s = CAdvance then Get (cvalue s)
      else Internal)"

definition ring_queue :: "ring_sys \<Rightarrow> int list" where
  "ring_queue s =
     map (\<lambda>j. slots (mem s) ! ((head (mem s) + j) mod 8)) [0..<p_advanced s - c_advanced s]"

lemma ring_queue_items:
  assumes "ring_inv s"
  shows "ring_queue s = map (\<lambda>k. int k + 1) [c_advanced s..<p_advanced s]"
proof (rule nth_equalityI)
  fix j assume "j < length (ring_queue s)"
  then have j: "j < p_advanced s - c_advanced s" by (simp add: ring_queue_def)
  have "(head (mem s) + j) mod 8 = (c_advanced s + j) mod 8"
    using assms by (simp add: ring_inv_def indices_ok_def mod_add_left_eq)
  moreover have "c_freed s \<le> c_advanced s + j" and "c_advanced s + j < p_stored s"
    using stages [OF assms] j by linarith+
  ultimately have "slots (mem s) ! ((head (mem s) + j) mod 8) = int (c_advanced s + j) + 1"
    using assms by (simp add: ring_inv_def slots_ok_def)
  then show "ring_queue s ! j = map (\<lambda>k. int k + 1) [c_advanced s..<p_advanced s] ! j"
    using j by (simp add: ring_queue_def)
qed (simp add: ring_queue_def)

lemma producer_refines:
  assumes inv: "ring_inv s" and inv': "ring_inv t" and m: "producer_step None s = Some t"
  shows "queue_spec 8 (ring_event (Move Producer) s) (ring_queue s) = Some (ring_queue t)"
proof -
  note q = ring_queue_items [OF inv] ring_queue_items [OF inv']
  have b: "1 \<le> pvalue s" using inv by (simp add: ring_inv_def loops_ok_def)
  then obtain v where v: "pvalue s = Suc v" by (cases "pvalue s") auto
  have c: "c_advanced t = c_advanced s"
    using consumer_side [of t s] producer_keeps [OF m] by simp
  show ?thesis
  proof (cases "ppc s = PAdvance")
    case True
    with m have "ppc t = PPostMutex" "pvalue t = Suc v"
      using v by (cases rule: producer_stepE, simp_all)+
    with True have p: "p_advanced s = v" "p_advanced t = Suc v" "p_taken s = Suc v"
      using v by (simp_all add: p_advanced_def p_taken_def count_def)
    have "v < 8 + c_advanced s" and "c_advanced s \<le> v"
      using stages [OF inv] p v by linarith+
    then show ?thesis
      using True by (auto simp: ring_event_def q c p v)
  next
    case False
    from m have "p_advanced t = p_advanced s"
      by (cases rule: producer_stepE) (use False b in \<open>simp_all add: p_advanced_def count_def\<close>)
    with False show ?thesis by (simp add: ring_event_def q c)
  qed
qed

lemma consumer_refines:
  assumes inv: "ring_inv s" and inv': "ring_inv t" and m: "consumer_step None s = Some t"
  shows "queue_spec 8 (ring_event (Move Consumer) s) (ring_queue s) = Some (ring_queue t)"
proof -
  note q = ring_queue_items [OF inv] ring_queue_items [OF inv']
  have c: "p_advanced t = p_advanced s"
    using producer_side [of t s] consumer_keeps [OF m] by simp
  show ?thesis
  proof (cases "cpc s = CAdvance")
    case True
    with m have "cpc t = CPostMutex" "ci t = ci s"
      by (cases rule: consumer_stepE, simp_all)+
    with True have p: "c_advanced s = ci s" "c_advanced t = Suc (ci s)" "c_claimed s = Suc (ci s)"
      by (simp_all add: c_advanced_def c_claimed_def count_def)
    have "ci s < p_advanced s" using stages [OF inv] p by linarith
    moreover have "cvalue s = int (ci s) + 1"
      using inv True by (simp add: ring_inv_def sums_ok_def)
    ultimately show ?thesis
      using True by (simp add: ring_event_def q c p upt_conv_Cons)
  next
    case False
    from m have "c_advanced t = c_advanced s"
      by (cases rule: consumer_stepE) (use False in \<open>simp_all add: c_advanced_def count_def\<close>)
    with False show ?thesis by (simp add: ring_event_def q c)
  qed
qed

lemma ring_step_refines:
  assumes inv: "ring_inv s" and step: "only interruption ring_nxt a s = Some t"
  shows "queue_spec 8 (ring_event a s) (ring_queue s) = Some (ring_queue t)"
proof (cases a)
  case (Fault p e)
  then have "t = s\<lparr>intr := intr s - 1\<rparr>" using step fault_intr by blast
  with Fault show ?thesis
    by (simp add: ring_event_def ring_queue_def p_advanced_def c_advanced_def)
next
  case (Move p)
  with step have "ring_nxt (Move p) s = Some t" by (simp add: only_def)
  with Move show ?thesis
    using producer_refines [OF inv] consumer_refines [OF inv] ring_inv_step [OF inv step]
    by (cases p) auto
qed

text \<open>The queue operations a run of the program performs, and the specification run on them.\<close>

fun ring_trace :: "ring_act list \<Rightarrow> ring_sys \<Rightarrow> queue_event list" where
  "ring_trace [] s = []"
| "ring_trace (a # as) s =
     ring_event a s # (case ring_nxt a s of None \<Rightarrow> [] | Some t \<Rightarrow> ring_trace as t)"

fun queue_run :: "nat \<Rightarrow> queue_event list \<Rightarrow> int list \<Rightarrow> int list option" where
  "queue_run cap [] q = Some q"
| "queue_run cap (e # es) q =
     (case queue_spec cap e q of None \<Rightarrow> None | Some r \<Rightarrow> queue_run cap es r)"

lemma ring_run_refines:
  "ring_inv s \<Longrightarrow> run (only interruption ring_nxt) as s = Some t \<Longrightarrow>
     queue_run 8 (ring_trace as s) (ring_queue s) = Some (ring_queue t)"
proof (induction as arbitrary: s)
  case (Cons a as)
  then obtain u where u: "only interruption ring_nxt a s = Some u"
    and r: "run (only interruption ring_nxt) as u = Some t"
    by (auto split: option.splits)
  have "ring_nxt a s = Some u" using u by (simp add: only_def split: if_splits)
  then show ?case
    using Cons.IH [OF ring_inv_step [OF Cons.prems(1) u] r] ring_step_refines [OF Cons.prems(1) u]
    by simp
qed simp

subsection \<open>A fork that fails\<close>

text \<open>
  The result of \<open>fork\<close> is not tested: without a consumer nothing returns a slot, and the producer
  blocks for good once the ring is full.
\<close>

definition alone_inv :: "ring_sys \<Rightarrow> bool" where
  "alone_inv s \<longleftrightarrow> cpc s = CAbsent \<and> 1 \<le> pvalue s \<and> empty_sem (mem s) + p_taken s = 8
     \<and> mutex_sem (mem s) + count (p_critical s) = 1
     \<and> ppc s \<in> {PWaitEmpty, PWaitMutex, PStore, PAdvance, PPostMutex, PPostFull}"

definition ring_alone :: "nat \<Rightarrow> ring_sys" where
  "ring_alone n = (ring_start n)\<lparr>cpc := CAbsent\<rparr>"

lemma ring_setup_alone: "ring_setup None True None False n = Inr (ring_alone n)"
  by (simp add: ring_setup_def ring_alone_def ring_start_def)

lemma alone_step:
  assumes "alone_inv s" and step: "only interruption ring_nxt a s = Some t"
  shows "alone_inv t"
proof (cases a)
  case (Fault p e)
  then have "t = s\<lparr>intr := intr s - 1\<rparr>" using step fault_intr by blast
  with assms(1) show ?thesis by (auto simp: alone_inv_def p_taken_def p_critical_def)
next
  case (Move p)
  show ?thesis
  proof (cases p)
    case Producer
    with step Move have "producer_step None s = Some t" by (simp add: only_def)
    then show ?thesis
      by (cases rule: producer_stepE)
        (use assms(1) in \<open>auto simp: alone_inv_def p_taken_def p_critical_def count_def sem_post_def
          SEM_VALUE_MAX_def ITEMS_def\<close>)
  next
    case Consumer
    with step Move assms(1) show ?thesis by (simp add: only_def alone_inv_def consumer_step_def)
  qed
qed

definition alone_blocked :: "ring_sys \<Rightarrow> bool" where
  "alone_blocked s \<longleftrightarrow> ppc s = PWaitEmpty \<and> empty_sem (mem s) = 0"

lemma alone_decreases:
  assumes inv: "alone_inv s" and step: "only interruption ring_nxt a s = Some t"
  shows "ring_msr t < ring_msr s"
proof (cases a)
  case (Fault p e)
  then show ?thesis using step fault_intr by (fastforce simp: ring_msr_def)
next
  case (Move p)
  have b: "pvalue s \<le> 9" using inv by (auto simp: alone_inv_def p_taken_def)
  show ?thesis
  proof (cases p)
    case Producer
    with step Move have m: "producer_step None s = Some t" by (simp add: only_def)
    then show ?thesis
      by (cases rule: producer_stepE)
        (use b inv in \<open>auto simp: ring_msr_def ITEMS_def alone_inv_def\<close>)
  next
    case Consumer
    with step Move inv show ?thesis by (simp add: only_def alone_inv_def consumer_step_def)
  qed
qed

lemma alone_progress:
  assumes "alone_inv s" and "\<not> alone_blocked s"
  shows "\<exists>a t. only interruption ring_nxt a s = Some t"
proof -
  have "\<exists>t. producer_step None s = Some t"
    using assms
    by (auto simp: producer_step_def sem_wait_cases Let_def alone_inv_def alone_blocked_def
        p_critical_def count_def)
  then obtain t where "only interruption ring_nxt (Move Producer) s = Some t"
    by (auto simp: only_def)
  then show ?thesis by blast
qed

interpretation alone: terminating_system "only interruption ring_nxt" "ring_alone n" alone_inv
  ring_msr alone_blocked for n
proof unfold_locales
  show "alone_inv (ring_alone n)"
    by (simp add: alone_inv_def ring_alone_def ring_start_def ring_init_def CAPACITY_def p_taken_def
        p_critical_def count_def)
qed (fact alone_step alone_decreases alone_progress)+

lemma alone_blocked_ninth: "alone_inv s \<Longrightarrow> alone_blocked s \<Longrightarrow> pvalue s = 9"
  by (auto simp: alone_inv_def alone_blocked_def p_taken_def count_def)

subsection \<open>Properties\<close>

text \<open>
  C8: When the set-up and the fork succeed and signals do no more than interrupt the two processes
  a finite number of times, the program does not deadlock and ends: every schedule has at most
  \<open>280\<close> steps besides the interruptions, can be continued to the end, and where nothing more can
  move the shared memory is unlinked and the output is the line \<open>consumer total=210\<close>.
\<close>

theorem ring_completes:
  assumes "ring_setup None True None True n = Inr s" and "run ring_nxt as s = Some t"
    and "\<forall>a \<in> set as. interruption a"
  shows "length as \<le> 280 + n
    \<and> (\<exists>bs u. list_all interruption bs \<and> run ring_nxt (as @ bs) s = Some u \<and> ppc u = PExited)
    \<and> (stuck (only interruption ring_nxt) t \<longrightarrow>
         ppc t = PExited \<and> \<not> linked t \<and> outp t = ''consumer total=210'' @ [newline])"
proof -
  have s: "s = ring_start n" using assms(1) by (simp add: ring_setup_start)
  have r: "run (only interruption ring_nxt) as (ring_start n) = Some t"
    using assms(2,3) by (simp add: run_only s)
  have "length as \<le> 280 + n"
    using ring.bounded [OF r] by (simp add: ring_msr_def ring_start_def)
  moreover have "\<exists>bs u. list_all interruption bs \<and> run ring_nxt (as @ bs) s = Some u \<and> ppc u = PExited"
    using ring.completes [OF r] by (auto simp: s ring_done_def dest: run_only_run run_only_list)
  moreover have "ppc t = PExited \<and> \<not> linked t \<and> outp t = ''consumer total=210'' @ [newline]"
    if "stuck (only interruption ring_nxt) t"
    using ring.stuck_final [OF r that] ring.inv_reached [OF r]
    by (simp add: ring_done_def ring_inv_def loops_ok_def sums_ok_def)
  ultimately show ?thesis by blast
qed

text \<open>The state after the first put, in the critical section of the producer.\<close>

definition ring_put :: ring_sys where
  "ring_put = (ring_start 0)\<lparr>mem := ring_init\<lparr>empty_sem := 7, mutex_sem := 0, tail := 1,
     slots := [1, 0, 0, 0, 0, 0, 0, 0]\<rparr>, ppc := PPostMutex\<rparr>"

lemma ring_put_run: "run ring_nxt (replicate 4 (Move Producer)) (ring_start 0) = Some ring_put"
  by code_simp

theorem ring_completes_witness:
  "ring_setup None True None True 0 = Inr (ring_start 0)
     \<and> run ring_nxt (replicate 4 (Move Producer)) (ring_start 0) = Some ring_put
     \<and> (\<exists>bs u. run ring_nxt (replicate 4 (Move Producer) @ bs) (ring_start 0) = Some u \<and> ppc u = PExited)"
proof -
  have "\<forall>a \<in> set (replicate 4 (Move Producer)). interruption a" by simp
  from ring_completes [OF ring_setup_start ring_put_run this] show ?thesis
    using ring_setup_start ring_put_run by blast
qed

text \<open>
  C9: In every interleaving the ring implements a first-in first-out queue of capacity eight: the
  sequence of its puts and gets is one the queue allows from the empty queue, it ends with the
  items that lie between \<open>head\<close> and \<open>tail\<close>, and the two critical sections never overlap.
\<close>

theorem ring_refines_queue:
  assumes "ring_setup None True None True n = Inr s" and "run ring_nxt as s = Some t"
    and "\<forall>a \<in> set as. interruption a"
  shows "queue_run 8 (ring_trace as s) [] = Some (ring_queue t) \<and> \<not> (p_critical t \<and> c_critical t)"
proof -
  have s: "s = ring_start n" using assms(1) by (simp add: ring_setup_start)
  have r: "run (only interruption ring_nxt) as (ring_start n) = Some t"
    using assms(2,3) by (simp add: run_only s)
  have "ring_queue s = []"
    by (simp add: s ring_queue_def ring_start_def p_advanced_def c_advanced_def count_def)
  then have "queue_run 8 (ring_trace as s) [] = Some (ring_queue t)"
    using ring_run_refines [OF ring_start_inv r] s by simp
  moreover have "\<not> (p_critical t \<and> c_critical t)"
    using ring.inv_reached [OF r] by (auto simp: ring_inv_def sems_ok_def count_def)
  ultimately show ?thesis by blast
qed

theorem ring_refines_queue_witness:
  "ring_setup None True None True 0 = Inr (ring_start 0)
     \<and> run ring_nxt (replicate 4 (Move Producer)) (ring_start 0) = Some ring_put
     \<and> queue_run 8 (ring_trace (replicate 4 (Move Producer)) (ring_start 0)) []
         = Some (ring_queue ring_put)
     \<and> \<not> (p_critical ring_put \<and> c_critical ring_put)"
proof -
  have "\<forall>a \<in> set (replicate 4 (Move Producer)). interruption a" by simp
  from ring_refines_queue [OF ring_setup_start ring_put_run this] show ?thesis
    using ring_setup_start ring_put_run by blast
qed

lemma ring_alone_run:
  "run ring_nxt (replicate 4 (Move Producer)) (ring_alone 0) = Some (ring_put\<lparr>cpc := CAbsent\<rparr>)"
  by code_simp

text \<open>
  C10: When the fork fails, which the program does not test, it never ends: no schedule brings the
  producer past its loop, and every schedule leads to the state where the producer waits for a
  free slot for its ninth item, which no process will ever return.
\<close>

theorem ring_fork_failure_hangs:
  assumes "ring_setup None True None False n = Inr s" and "run ring_nxt as s = Some t"
    and "\<forall>a \<in> set as. interruption a"
  shows "ppc t \<notin> {PWaitChild, PUnlink, PExited}
    \<and> (\<exists>bs u. run ring_nxt (as @ bs) s = Some u \<and> ppc u = PWaitEmpty \<and> empty_sem (mem u) = 0
          \<and> pvalue u = 9 \<and> cpc u = CAbsent)"
proof -
  have s: "s = ring_alone n" using assms(1) by (simp add: ring_setup_alone)
  have r: "run (only interruption ring_nxt) as (ring_alone n) = Some t"
    using assms(2,3) by (simp add: run_only s)
  have "ppc t \<notin> {PWaitChild, PUnlink, PExited}"
    using alone.inv_reached [OF r] by (auto simp: alone_inv_def)
  moreover obtain bs u where u: "run (only interruption ring_nxt) (as @ bs) (ring_alone n) = Some u"
    and b: "alone_blocked u"
    using alone.completes [OF r] by blast
  moreover have "alone_inv u" using u by (rule alone.inv_reached)
  then have "pvalue u = 9 \<and> cpc u = CAbsent"
    using b alone_blocked_ninth by (simp add: alone_inv_def)
  ultimately show ?thesis
    unfolding s alone_blocked_def by (blast dest: run_only_run)
qed

theorem ring_fork_failure_hangs_witness:
  "ring_setup None True None False 0 = Inr (ring_alone 0)
     \<and> run ring_nxt (replicate 4 (Move Producer)) (ring_alone 0) = Some (ring_put\<lparr>cpc := CAbsent\<rparr>)
     \<and> (\<exists>bs u. run ring_nxt (replicate 4 (Move Producer) @ bs) (ring_alone 0) = Some u
           \<and> ppc u = PWaitEmpty \<and> pvalue u = 9)"
proof -
  have "\<forall>a \<in> set (replicate 4 (Move Producer)). interruption a" by simp
  from ring_fork_failure_hangs [OF ring_setup_alone ring_alone_run this] show ?thesis
    using ring_setup_alone ring_alone_run by blast
qed

end
