(* ===== verification/SemPrograms.thy ===== *)
theory SemPrograms
  imports RingSem
begin

text \<open>
  The programs of \<open>Semaphores/\<close> besides the guarded counter and the barrier: two processes that take turns
  (\<open>posix_named_sem_pingpong.c\<close>), a latch on a shared buffer (\<open>posix_shm_unnamed_sem_latch.c\<close>), and
  a wait with a deadline (\<open>posix_sem_timedwait_timeout.c\<close>).
\<close>

subsection \<open>Ping-pong\<close>

text \<open>
  The parent's \<open>printf\<close> goes through its stdio buffer, which is written at every line when the
  standard output is a terminal, and otherwise when the process exits; the child flushes.
\<close>

datatype turn_pc = TWait nat | TPrint nat | TPost nat | TReap | TExit | TAbsent

record pingpong =
  ping :: nat
  pong :: nat
  ppp :: turn_pc
  cpp :: turn_pc
  pbuf :: "string list"
  terminal :: "string list" \<comment> \<open>what has been written to the standard output\<close>
  snames :: bool \<comment> \<open>the names of the semaphores exist\<close>

definition turn_loop :: "nat \<Rightarrow> turn_pc \<Rightarrow> turn_pc" where
  "turn_loop i after = (if i < 3 then TWait i else after)"

text \<open>\<open>sem_wait\<close> without a retry; the processes receive no signals.\<close>

definition sem_dec :: "nat \<Rightarrow> nat option" where
  "sem_dec v = (if v = 0 then None else Some (v - 1))"

definition ping_line :: "nat \<Rightarrow> string" where
  "ping_line i = ''ping '' @ fmt_d (int i + 1) @ [newline]"

definition pong_line :: "nat \<Rightarrow> string" where
  "pong_line i = ''pong '' @ fmt_d (int i + 1) @ [newline]"

definition ping_step :: "bool \<Rightarrow> pingpong \<Rightarrow> pingpong option" where
  "ping_step tty s =
     (case ppp s of
        TWait i \<Rightarrow> (case sem_dec (ping s) of None \<Rightarrow> None | Some v \<Rightarrow> Some (s\<lparr>ping := v, ppp := TPrint i\<rparr>))
      | TPrint i \<Rightarrow>
          Some (if tty then s\<lparr>terminal := terminal s @ [ping_line i], ppp := TPost i\<rparr>
                else s\<lparr>pbuf := pbuf s @ [ping_line i], ppp := TPost i\<rparr>)
      | TPost i \<Rightarrow> Some (s\<lparr>pong := pong s + 1, ppp := turn_loop (i + 1) TReap\<rparr>)
      | TReap \<Rightarrow>
          (if cpp s = TExit
           then Some (s\<lparr>terminal := terminal s @ pbuf s, pbuf := [], snames := False, ppp := TExit\<rparr>)
           else None)
      | _ \<Rightarrow> None)"

definition pong_step :: "pingpong \<Rightarrow> pingpong option" where
  "pong_step s =
     (case cpp s of
        TWait i \<Rightarrow> (case sem_dec (pong s) of None \<Rightarrow> None | Some v \<Rightarrow> Some (s\<lparr>pong := v, cpp := TPrint i\<rparr>))
      | TPrint i \<Rightarrow> Some (s\<lparr>terminal := terminal s @ [pong_line i], cpp := TPost i\<rparr>)
      | TPost i \<Rightarrow> Some (s\<lparr>ping := ping s + 1, cpp := turn_loop (i + 1) TExit\<rparr>)
      | _ \<Rightarrow> None)"

definition pingpong_nxt :: "bool \<Rightarrow> bool \<Rightarrow> pingpong \<Rightarrow> pingpong option" where
  "pingpong_nxt tty parent s = (if parent then ping_step tty s else pong_step s)"

text \<open>The result of \<open>fork\<close> is compared with 0 only.\<close>

definition pingpong_setup :: "errno option \<Rightarrow> errno option \<Rightarrow> bool \<Rightarrow> pingpong res" where
  "pingpong_setup ping_res pong_res forked =
     (case (ping_res, pong_res) of
        (None, None) \<Rightarrow>
          Inr \<lparr>ping = 1, pong = 0, ppp = TWait 0, cpp = (if forked then TWait 0 else TAbsent), pbuf = [],
               terminal = [], snames = True\<rparr>
      | (_, Some e) \<Rightarrow> Inl (die_errno ''sem_open'' e)
      | (Some e, None) \<Rightarrow> Inl (die_errno ''sem_open'' e))"

definition pingpong_start :: pingpong where
  "pingpong_start = \<lparr>ping = 1, pong = 0, ppp = TWait 0, cpp = TWait 0, pbuf = [], terminal = [], snames = True\<rparr>"

text \<open>
  On a terminal the lines alternate at every moment. Otherwise the lines of the parent appear after
  those of the child, when the parent exits.
\<close>

definition alternating :: "string list" where
  "alternating = [ping_line 0, pong_line 0, ping_line 1, pong_line 1, ping_line 2, pong_line 2]"

definition pongs_first :: "string list" where
  "pongs_first = [pong_line 0, pong_line 1, pong_line 2, ping_line 0, ping_line 1, ping_line 2]"

definition turns_ok :: "bool \<Rightarrow> pingpong \<Rightarrow> bool" where
  "turns_ok tty s \<longleftrightarrow>
     (let full = (if tty then alternating else pongs_first) in
      take (length (terminal s)) full = terminal s
      \<and> (idle (pingpong_nxt tty) [True, False] s \<longrightarrow>
           ppp s = TExit \<and> cpp s = TExit \<and> terminal s = full \<and> \<not> snames s))"

interpretation tty_turns: explored_system "pingpong_nxt True" "[True, False]" pingpong_start
  "turns_ok True" 30
proof unfold_locales
  show "explore (pingpong_nxt True) [True, False] (turns_ok True) 30 [pingpong_start]"
    by code_simp
qed auto

interpretation file_turns: explored_system "pingpong_nxt False" "[True, False]" pingpong_start
  "turns_ok False" 30
proof unfold_locales
  show "explore (pingpong_nxt False) [True, False] (turns_ok False) 30 [pingpong_start]"
    by code_simp
qed auto

text \<open>After a failed \<open>fork\<close> nobody posts the semaphore \<open>ping\<close> again.\<close>

lemma pingpong_alone:
  "\<exists>s t. pingpong_setup None None False = Inr s \<and> run (pingpong_nxt tty) [True, True, True] s = Some t
     \<and> stuck (pingpong_nxt tty) t \<and> ppp t = TWait 1 \<and> snames t"
  by (simp add: pingpong_setup_def pingpong_nxt_def ping_step_def pong_step_def sem_dec_def turn_loop_def stuck_def)

subsection \<open>The latch\<close>

datatype latch_pc = LWrite | LPost | LReap | LUnlink | LWait | LRead | LExit | LAbsent | LDied halt

record latch =
  ready :: nat
  message :: string
  lparent :: latch_pc
  lchild :: latch_pc
  lout :: string
  lname :: bool

text \<open>
  The page of the shared memory object is zero before the parent writes to it. The results of \<open>ftruncate\<close> and \<open>fork\<close> are not
  tested.
\<close>

definition latch_setup :: "errno option \<Rightarrow> bool \<Rightarrow> errno option \<Rightarrow> bool \<Rightarrow> latch res" where
  "latch_setup shm_open_res sized mmap_res forked =
     (case shm_open_res of
        Some e \<Rightarrow> Inl (die_errno ''shm_open'' e)
      | None \<Rightarrow>
          (case mmap_res of
             Some e \<Rightarrow> Inl (die_errno ''mmap'' e)
           | None \<Rightarrow>
               if \<not> sized then Inl (Killed ''SIGBUS'')
               else Inr \<lparr>ready = 0, message = [], lparent = LWrite, lchild = (if forked then LWait else LAbsent),
                         lout = [], lname = True\<rparr>))"

definition latch_parent_step :: "latch \<Rightarrow> latch option" where
  "latch_parent_step s =
     (case lparent s of
        LWrite \<Rightarrow> Some (s\<lparr>message := fst (snprintf 64 ''shared-memory latch released''), lparent := LPost\<rparr>)
      | LPost \<Rightarrow> Some (s\<lparr>ready := ready s + 1, lparent := LReap\<rparr>)
      | LReap \<Rightarrow>
          (case lchild s of
             LExit \<Rightarrow> Some (s\<lparr>lparent := LUnlink\<rparr>)
           | LAbsent \<Rightarrow> Some (s\<lparr>lparent := LDied (die_errno ''waitpid'' ECHILD)\<rparr>)
           | _ \<Rightarrow> None)
      | LUnlink \<Rightarrow> Some (s\<lparr>lname := False, lparent := LExit\<rparr>)
      | _ \<Rightarrow> None)"

definition latch_child_step :: "latch \<Rightarrow> latch option" where
  "latch_child_step s =
     (case lchild s of
        LWait \<Rightarrow> (case sem_dec (ready s) of None \<Rightarrow> None | Some v \<Rightarrow> Some (s\<lparr>ready := v, lchild := LRead\<rparr>))
      | LRead \<Rightarrow> Some (s\<lparr>lout := lout s @ ''child observed: '' @ message s @ [newline], lchild := LExit\<rparr>)
      | _ \<Rightarrow> None)"

definition latch_nxt :: "bool \<Rightarrow> latch \<Rightarrow> latch option" where
  "latch_nxt parent s = (if parent then latch_parent_step s else latch_child_step s)"

definition latch_start :: latch where
  "latch_start = \<lparr>ready = 0, message = [], lparent = LWrite, lchild = LWait, lout = [], lname = True\<rparr>"

definition latch_ok :: "latch \<Rightarrow> bool" where
  "latch_ok s \<longleftrightarrow>
     (lout s = [] \<or> lout s = ''child observed: shared-memory latch released'' @ [newline])
     \<and> (idle latch_nxt [True, False] s \<longrightarrow>
          lparent s = LExit \<and> \<not> lname s
          \<and> lout s = ''child observed: shared-memory latch released'' @ [newline])"

interpretation latch: explored_system latch_nxt "[True, False]" latch_start latch_ok 10
proof unfold_locales
  show "explore latch_nxt [True, False] latch_ok 10 [latch_start]" by code_simp
qed auto

subsection \<open>The wait with a deadline\<close>

record timespec =
  tv_sec :: int
  tv_nsec :: int

text \<open>The deadline: 100 milliseconds after the current time, with the carry into the seconds.\<close>

definition deadline_100ms :: "timespec \<Rightarrow> timespec" where
  "deadline_100ms now =
     (let d = now\<lparr>tv_nsec := tv_nsec now + 100000000\<rparr> in
      if 1000000000 \<le> tv_nsec d
      then d\<lparr>tv_sec := tv_sec d + 1, tv_nsec := tv_nsec d - 1000000000\<rparr> else d)"

definition nanoseconds :: "timespec \<Rightarrow> int" where
  "nanoseconds t = tv_sec t * 1000000000 + tv_nsec t"

definition normalised :: "timespec \<Rightarrow> bool" where
  "normalised t \<longleftrightarrow> 0 \<le> tv_nsec t \<and> tv_nsec t < 1000000000"

text \<open>
  \<open>sem_timedwait\<close> on a semaphore of value 0 that nobody posts: the kernel rejects a deadline that is
  not normalised, a signal may interrupt the wait, and otherwise it ends when the clock has reached
  the deadline. The result is the error and the time at which the call returns.
\<close>

definition sem_timedwait :: "timespec \<Rightarrow> int option \<Rightarrow> errno \<times> int" where
  "sem_timedwait d interrupted_at =
     (if \<not> normalised d then (EINVAL, 0)
      else
        (case interrupted_at of
           Some t \<Rightarrow> if t < nanoseconds d then (EINTR, t) else (ETIMEDOUT, nanoseconds d)
         | None \<Rightarrow> (ETIMEDOUT, nanoseconds d)))"

definition timedwait_main :: "errno option \<Rightarrow> timespec \<Rightarrow> int option \<Rightarrow> (string \<times> int) res" where
  "timedwait_main sem_init_res now interrupted_at =
     (case sem_init_res of
        Some e \<Rightarrow> Inl (die_errno ''sem_init'' e)
      | None \<Rightarrow>
          (case sem_timedwait (deadline_100ms now) interrupted_at of
             (e, t) \<Rightarrow>
               if e = ETIMEDOUT then Inr (''sem_timedwait expired as expected'' @ [newline], t)
               else Inl (die ''sem_timedwait did not time out'')))"

lemma deadline_normalised: "normalised now \<Longrightarrow> normalised (deadline_100ms now)"
  by (auto simp: normalised_def deadline_100ms_def Let_def)

lemma deadline_later: "nanoseconds (deadline_100ms now) = nanoseconds now + 100000000"
  by (auto simp: nanoseconds_def deadline_100ms_def Let_def)

subsection \<open>Properties\<close>

lemma turns_run:
  assumes "run (pingpong_nxt tty) as pingpong_start = Some t"
  shows "length as < 30 \<and> turns_ok tty t
    \<and> (\<exists>bs u. run (pingpong_nxt tty) (as @ bs) pingpong_start = Some u
          \<and> idle (pingpong_nxt tty) [True, False] u)"
proof (cases tty)
  case True
  then have e: "tty = True" by simp
  have r: "run (pingpong_nxt True) as pingpong_start = Some t" using assms e by simp
  show ?thesis
    unfolding e using tty_turns.run_bound [OF r] tty_turns.checked_run [OF r] tty_turns.run_to_idle [OF r]
    by blast
next
  case False
  then have e: "tty = False" by simp
  have r: "run (pingpong_nxt False) as pingpong_start = Some t" using assms e by simp
  show ?thesis
    unfolding e using file_turns.run_bound [OF r] file_turns.checked_run [OF r] file_turns.run_to_idle [OF r]
    by blast
qed

text \<open>
  C16: The two processes never deadlock: every schedule is shorter than 30 steps and leads to the
  end of both. On a terminal the lines are at every moment a prefix of ping 1, pong 1, ping 2,
  pong 2, ping 3, pong 3. When the output is not a terminal the parent's lines, which it does not
  flush, come after all lines of the child. At the end the names of the semaphores are removed. After a failed \<open>fork\<close>, which
  is not tested, the parent waits for ever for its second turn.
\<close>

theorem pingpong_turns:
  assumes "pingpong_setup None None True = Inr s" and "run (pingpong_nxt tty) as s = Some t"
  shows "length as < 30
    \<and> (\<exists>n. terminal t = take n (if tty then alternating else pongs_first))
    \<and> (\<exists>bs u. run (pingpong_nxt tty) (as @ bs) s = Some u \<and> ppp u = TExit \<and> cpp u = TExit
          \<and> terminal u = (if tty then alternating else pongs_first) \<and> \<not> snames u)
    \<and> (\<exists>s' t'. pingpong_setup None None False = Inr s' \<and> run (pingpong_nxt tty) [True, True, True] s' = Some t'
          \<and> stuck (pingpong_nxt tty) t' \<and> ppp t' = TWait 1)"
proof -
  have s: "s = pingpong_start" using assms(1) by (simp add: pingpong_setup_def pingpong_start_def)
  obtain bs u where u: "run (pingpong_nxt tty) (as @ bs) pingpong_start = Some u"
    "idle (pingpong_nxt tty) [True, False] u"
    using turns_run [of tty as t] assms(2) s by blast
  have "turns_ok tty u" using turns_run [OF u(1)] by blast
  then have "ppp u = TExit \<and> cpp u = TExit \<and> terminal u = (if tty then alternating else pongs_first) \<and> \<not> snames u"
    using u(2) by (simp add: turns_ok_def Let_def)
  moreover have "terminal t = take (length (terminal t)) (if tty then alternating else pongs_first)"
    using turns_run [of tty as t] assms(2) s by (simp add: turns_ok_def Let_def)
  ultimately show ?thesis
    using turns_run [of tty as t] assms(2) s u(1) pingpong_alone [of tty] by blast
qed

theorem pingpong_turns_witness:
  "pingpong_setup None None True = Inr pingpong_start
     \<and> (\<exists>bs u. run (pingpong_nxt False) ([] @ bs) pingpong_start = Some u \<and> terminal u = pongs_first)"
proof -
  have "pingpong_setup None None True = Inr pingpong_start"
    by (simp add: pingpong_setup_def pingpong_start_def)
  from this pingpong_turns [OF this, of False "[]" pingpong_start] show ?thesis by auto
qed

text \<open>
  The child never sees the buffer before the parent has filled it: whatever the schedule, what
  it prints is the whole message, every schedule has fewer than ten steps and leads to the end,
  and the shared memory object is then unlinked.
\<close>

theorem latch_message:
  assumes "latch_setup None True None True = Inr s" and "run latch_nxt as s = Some t"
  shows "length as < 10
    \<and> lout t \<in> {[], ''child observed: shared-memory latch released'' @ [newline]}
    \<and> (\<exists>bs u. run latch_nxt (as @ bs) s = Some u \<and> lparent u = LExit \<and> \<not> lname u
          \<and> lout u = ''child observed: shared-memory latch released'' @ [newline])"
proof -
  have s: "s = latch_start" using assms(1) by (simp add: latch_setup_def latch_start_def)
  have r: "run latch_nxt as latch_start = Some t" using assms(2) s by simp
  obtain bs u where u: "run latch_nxt (as @ bs) latch_start = Some u" "idle latch_nxt [True, False] u"
    using latch.run_to_idle [OF r] by blast
  have "lparent u = LExit \<and> \<not> lname u \<and> lout u = ''child observed: shared-memory latch released'' @ [newline]"
    using latch.checked_run [OF u(1)] u(2) by (simp add: latch_ok_def)
  moreover have "lout t \<in> {[], ''child observed: shared-memory latch released'' @ [newline]}"
    using latch.checked_run [OF r] by (auto simp: latch_ok_def)
  ultimately show ?thesis using latch.run_bound [OF r] u(1) s by blast
qed

theorem latch_message_witness:
  "latch_setup None True None True = Inr latch_start
     \<and> (\<exists>bs u. run latch_nxt ([] @ bs) latch_start = Some u \<and> lparent u = LExit)"
proof -
  have "latch_setup None True None True = Inr latch_start" by (simp add: latch_setup_def latch_start_def)
  from this latch_message [OF this, of "[]" latch_start] show ?thesis by auto
qed

text \<open>
  From a normalised current time the deadline is normalised and 100 milliseconds later, so the
  kernel accepts it; the program reports the timeout exactly at the deadline, unless a signal
  interrupts the wait before it, in which case it exits with the message that it did not time out.
\<close>

theorem timedwait_expires:
  assumes "normalised now"
  shows "timedwait_main None now interrupted_at =
    (case interrupted_at of
       Some t \<Rightarrow>
         if t < nanoseconds now + 100000000
         then Inl (Exit 1 (''error: sem_timedwait did not time out'' @ [newline]))
         else Inr (''sem_timedwait expired as expected'' @ [newline], nanoseconds now + 100000000)
     | None \<Rightarrow> Inr (''sem_timedwait expired as expected'' @ [newline], nanoseconds now + 100000000))"
  using deadline_normalised [OF assms]
  by (simp add: timedwait_main_def sem_timedwait_def deadline_later die_def split: option.split)

theorem timedwait_expires_witness:
  "timedwait_main None \<lparr>tv_sec = 5, tv_nsec = 950000000\<rparr> None
     = Inr (''sem_timedwait expired as expected'' @ [newline], 6050000000)"
  using timedwait_expires [of "\<lparr>tv_sec = 5, tv_nsec = 950000000\<rparr>" None]
  by (simp add: normalised_def nanoseconds_def)

end
