(* ===== verification/Barrier.thy ===== *)
theory Barrier
  imports Common
begin

text \<open>
  \<open>Semaphores/sysv_semaphore_set_barrier.c\<close>: three workers that meet at a barrier, a semaphore that
  starts at the number of workers, which each worker decrements and then waits to be zero.
\<close>

definition BARRIER_WORKERS :: nat where
  "BARRIER_WORKERS = 3"

datatype bpc = BNone | BReach | BChange | BWait | BRelease | BExit | BReaped | BDead halt

datatype bparent = BFork nat | BReap | BRemove | BGone

text \<open>The lines of the workers, as \<open>reached\<close> and \<open>released\<close> events of worker \<open>i\<close>.\<close>

datatype bline = Reached nat | Released nat

record barrier =
  bsem :: nat
  bk :: "nat \<Rightarrow> bpc"
  bpar :: bparent
  bout :: "bline list"
  bset :: bool \<comment> \<open>the semaphore set exists\<close>

fun bline_text :: "bline \<Rightarrow> string" where
  "bline_text (Reached i) = ''worker '' @ fmt_d (int i + 1) @ '' reached barrier'' @ [newline]"
| "bline_text (Released i) = ''worker '' @ fmt_d (int i + 1) @ '' released'' @ [newline]"

text \<open>\<open>semop\<close> without flags on one semaphore: a decrement waits for a positive value.\<close>

definition change :: "int \<Rightarrow> nat \<Rightarrow> nat option" where
  "change delta v = (if int v + delta < 0 then None else Some (nat (int v + delta)))"

definition wait_zero :: "nat \<Rightarrow> nat option" where
  "wait_zero v = (if v = 0 then Some v else None)"

definition barrier_worker :: "nat \<Rightarrow> barrier \<Rightarrow> barrier option" where
  "barrier_worker i s =
     (case bk s i of
        BReach \<Rightarrow> Some (s\<lparr>bout := bout s @ [Reached i], bk := (bk s)(i := BChange)\<rparr>)
      | BChange \<Rightarrow>
          (case change (-1) (bsem s) of
             None \<Rightarrow> None
           | Some v \<Rightarrow> Some (s\<lparr>bsem := v, bk := (bk s)(i := BWait)\<rparr>))
      | BWait \<Rightarrow>
          (case wait_zero (bsem s) of
             None \<Rightarrow> None
           | Some v \<Rightarrow> Some (s\<lparr>bk := (bk s)(i := BRelease)\<rparr>))
      | BRelease \<Rightarrow> Some (s\<lparr>bout := bout s @ [Released i], bk := (bk s)(i := BExit)\<rparr>)
      | _ \<Rightarrow> None)"

definition barrier_worker_fails :: "nat \<Rightarrow> errno \<Rightarrow> barrier \<Rightarrow> barrier option" where
  "barrier_worker_fails i e s =
     (case bk s i of
        BChange \<Rightarrow> Some (s\<lparr>bk := (bk s)(i := BDead (die_errno ''semop change'' e))\<rparr>)
      | BWait \<Rightarrow> Some (s\<lparr>bk := (bk s)(i := BDead (die_errno ''semop wait zero'' e))\<rparr>)
      | _ \<Rightarrow> None)"

definition bfork_at :: "nat \<Rightarrow> bparent" where
  "bfork_at i = (if i < BARRIER_WORKERS then BFork i else BReap)"

fun bwaited :: "bpc \<Rightarrow> bool" where
  "bwaited BNone = True"
| "bwaited BReaped = True"
| "bwaited k = False"

definition barrier_parent :: "barrier \<Rightarrow> barrier option" where
  "barrier_parent s =
     (case bpar s of
        BFork i \<Rightarrow> Some (s\<lparr>bk := (bk s)(i := BReach), bpar := bfork_at (i + 1)\<rparr>)
      | BReap \<Rightarrow>
          (if \<forall>i \<in> set [0..<BARRIER_WORKERS]. bwaited (bk s i) then Some (s\<lparr>bpar := BRemove\<rparr>) else None)
      | BRemove \<Rightarrow> Some (s\<lparr>bset := False, bpar := BGone\<rparr>)
      | BGone \<Rightarrow> None)"

definition barrier_fork_fails :: "barrier \<Rightarrow> barrier option" where
  "barrier_fork_fails s =
     (case bpar s of BFork i \<Rightarrow> Some (s\<lparr>bpar := bfork_at (i + 1)\<rparr>) | _ \<Rightarrow> None)"

definition barrier_reap :: "nat \<Rightarrow> barrier \<Rightarrow> barrier option" where
  "barrier_reap i s =
     (if bpar s \<noteq> BReap then None
      else
        (case bk s i of
           BExit \<Rightarrow> Some (s\<lparr>bk := (bk s)(i := BReaped)\<rparr>)
         | BDead h \<Rightarrow> Some (s\<lparr>bk := (bk s)(i := BReaped)\<rparr>)
         | _ \<Rightarrow> None))"

datatype bact = BParent | BForkFails | BWorker nat | BWorkerFails nat errno | BReapWorker nat

fun barrier_nxt :: "bact \<Rightarrow> barrier \<Rightarrow> barrier option" where
  "barrier_nxt BParent s = barrier_parent s"
| "barrier_nxt BForkFails s = barrier_fork_fails s"
| "barrier_nxt (BWorker i) s = barrier_worker i s"
| "barrier_nxt (BWorkerFails i e) s = barrier_worker_fails i e s"
| "barrier_nxt (BReapWorker i) s = barrier_reap i s"

text \<open>The result of \<open>semctl SETALL\<close> is not tested; without it the semaphores are 0.\<close>

definition barrier_setup :: "errno option \<Rightarrow> bool \<Rightarrow> barrier res" where
  "barrier_setup semget_res set_all =
     (case semget_res of
        Some e \<Rightarrow> Inl (die_errno ''semget'' e)
      | None \<Rightarrow> Inr \<lparr>bsem = (if set_all then BARRIER_WORKERS else 0), bk = (\<lambda>i. BNone), bpar = bfork_at 0, bout = [], bset = True\<rparr>)"

fun bclean :: "bact \<Rightarrow> bool" where
  "bclean BForkFails = False"
| "bclean (BWorkerFails i e) = False"
| "bclean a = True"

subsection \<open>The invariant\<close>

definition started :: "bpc \<Rightarrow> bool" where
  "started k \<longleftrightarrow> k \<in> {BChange, BWait, BRelease, BExit, BReaped}"

definition changed :: "bpc \<Rightarrow> nat" where
  "changed k = (if k \<in> {BWait, BRelease, BExit, BReaped} then 1 else 0)"

definition passed :: "bpc \<Rightarrow> bool" where
  "passed k \<longleftrightarrow> k \<in> {BExit, BReaped}"

definition arrivals :: "barrier \<Rightarrow> nat" where
  "arrivals s = (\<Sum>i<3. changed (bk s i))"

text \<open>The output: the arrivals in some order, then the releases in some order.\<close>

definition bout_ok :: "barrier \<Rightarrow> bool" where
  "bout_ok s \<longleftrightarrow> (\<exists>rs ls. bout s = map Reached rs @ map Released ls \<and> distinct rs \<and> distinct ls
     \<and> set rs = {i. i < 3 \<and> started (bk s i)} \<and> set ls = {i. i < 3 \<and> passed (bk s i)})"

definition bsem_ok :: "barrier \<Rightarrow> bool" where
  "bsem_ok s \<longleftrightarrow> bsem s + arrivals s = 3 \<and> (\<forall>i. bk s i \<in> {BRelease, BExit, BReaped} \<longrightarrow> bsem s = 0)"

definition bshape :: "barrier \<Rightarrow> bool" where
  "bshape s \<longleftrightarrow> (\<forall>i h. bk s i \<noteq> BDead h) \<and> (\<forall>i \<ge> 3. bk s i = BNone)
     \<and> (\<forall>i < 3. bk s i = BNone \<longleftrightarrow> (\<exists>n \<le> i. bpar s = BFork n)) \<and> (\<forall>n. bpar s = BFork n \<longrightarrow> n < 3)
     \<and> (bpar s \<in> {BRemove, BGone} \<longrightarrow> (\<forall>i < 3. bk s i = BReaped)) \<and> bset s = (bpar s \<noteq> BGone)"

definition barrier_inv :: "barrier \<Rightarrow> bool" where
  "barrier_inv s \<longleftrightarrow> bsem_ok s \<and> bshape s \<and> bout_ok s"

lemma arrivals_upd:
  assumes "i < 3" and "bk t = (bk s)(i := k)"
  shows "arrivals t + changed (bk s i) = arrivals s + changed k"
  using sum_upd_nat [of i 3 "\<lambda>n. changed (bk t n)" "\<lambda>n. changed (bk s n)"] assms
  by (simp add: arrivals_def)

lemma arrivals_max:
  assumes "arrivals s = 3" and "i < 3" shows "changed (bk s i) = 1"
proof -
  have "arrivals s = changed (bk s 0) + changed (bk s 1) + changed (bk s 2)"
    by (simp add: arrivals_def numeral_3_eq_3 numeral_2_eq_2)
  moreover have "changed k \<le> 1" for k by (simp add: changed_def)
  note this [of "bk s 0"] this [of "bk s 1"] this [of "bk s 2"]
  ultimately have "changed (bk s 0) = 1 \<and> changed (bk s 1) = 1 \<and> changed (bk s 2) = 1"
    using assms(1) by linarith
  moreover have "i = 0 \<or> i = 1 \<or> i = 2" using assms(2) by linarith
  ultimately show ?thesis by auto
qed

lemma arrivals_missing:
  assumes "arrivals s \<noteq> 3" shows "\<exists>j<3. changed (bk s j) = 0"
proof (rule ccontr)
  assume "\<not> (\<exists>j<3. changed (bk s j) = 0)"
  then have "changed (bk s j) = 1" if "j < 3" for j
    using that by (auto simp: changed_def split: if_splits)
  then have "arrivals s = (\<Sum>i<3::nat. 1)" unfolding arrivals_def by (intro sum.cong) auto
  with assms show False by simp
qed

lemma barrier_workerE:
  assumes "barrier_worker i s = Some t"
  obtains
    (reach) "bk s i = BReach" "t = s\<lparr>bout := bout s @ [Reached i], bk := (bk s)(i := BChange)\<rparr>"
  | (dec) "bk s i = BChange" "0 < bsem s" "t = s\<lparr>bsem := bsem s - 1, bk := (bk s)(i := BWait)\<rparr>"
  | (zero) "bk s i = BWait" "bsem s = 0" "t = s\<lparr>bk := (bk s)(i := BRelease)\<rparr>"
  | (release) "bk s i = BRelease" "t = s\<lparr>bout := bout s @ [Released i], bk := (bk s)(i := BExit)\<rparr>"
proof -
  have "nat (int (bsem s) - 1) = bsem s - 1" by simp
  then consider "bk s i = BReach" "t = s\<lparr>bout := bout s @ [Reached i], bk := (bk s)(i := BChange)\<rparr>"
  | "bk s i = BChange" "0 < bsem s" "t = s\<lparr>bsem := bsem s - 1, bk := (bk s)(i := BWait)\<rparr>"
  | "bk s i = BWait" "bsem s = 0" "t = s\<lparr>bk := (bk s)(i := BRelease)\<rparr>"
  | "bk s i = BRelease" "t = s\<lparr>bout := bout s @ [Released i], bk := (bk s)(i := BExit)\<rparr>"
    using assms
    by (auto simp: barrier_worker_def change_def wait_zero_def split: bpc.splits if_splits)
  then show thesis using that by cases blast+
qed

lemma bout_ok_same:
  assumes "bout_ok s" and "bout t = bout s"
    and "\<And>i. i < 3 \<Longrightarrow> started (bk t i) = started (bk s i)"
    and "\<And>i. i < 3 \<Longrightarrow> passed (bk t i) = passed (bk s i)"
  shows "bout_ok t"
proof -
  have "{i. i < 3 \<and> started (bk t i)} = {i. i < 3 \<and> started (bk s i)}"
    and "{i. i < 3 \<and> passed (bk t i)} = {i. i < 3 \<and> passed (bk s i)}"
    using assms(3,4) by auto
  with assms(1,2) show ?thesis by (simp add: bout_ok_def)
qed

lemma bout_ok_reach:
  assumes "bout_ok s" and "\<forall>j < 3. \<not> passed (bk s j)" and i: "i < 3" "\<not> started (bk s i)"
    and "bout t = bout s @ [Reached i]" and bk: "bk t = (bk s)(i := BChange)"
  shows "bout_ok t"
proof -
  obtain rs ls where o: "bout s = map Reached rs @ map Released ls" "distinct rs" "distinct ls"
    "set rs = {i. i < 3 \<and> started (bk s i)}" "set ls = {i. i < 3 \<and> passed (bk s i)}"
    using assms(1) by (auto simp: bout_ok_def)
  have "set ls = {}" using o(5) assms(2) by auto
  then have "ls = []" by simp
  have "bout t = map Reached (rs @ [i]) @ map Released []" using assms(5) o(1) \<open>ls = []\<close> by simp
  moreover have "distinct (rs @ [i])" using o(2,4) i by simp
  moreover have "set (rs @ [i]) = {j. j < 3 \<and> started (bk t j)}"
    using o(4) i(1) unfolding bk by (auto simp: started_def)
  moreover have "set [] = {j. j < 3 \<and> passed (bk t j)}"
    using assms(2) unfolding bk by (auto simp: passed_def)
  moreover have "distinct ([] :: nat list)" by simp
  ultimately show ?thesis unfolding bout_ok_def by blast
qed

lemma bout_ok_release:
  assumes "bout_ok s" and i: "i < 3" "bk s i = BRelease"
    and "bout t = bout s @ [Released i]" and bk: "bk t = (bk s)(i := BExit)"
  shows "bout_ok t"
proof -
  obtain rs ls where o: "bout s = map Reached rs @ map Released ls" "distinct rs" "distinct ls"
    "set rs = {i. i < 3 \<and> started (bk s i)}" "set ls = {i. i < 3 \<and> passed (bk s i)}"
    using assms(1) by (auto simp: bout_ok_def)
  have "bout t = map Reached rs @ map Released (ls @ [i])" using assms(4) o(1) by simp
  moreover have "distinct (ls @ [i])" using o(3,5) i by (simp add: passed_def)
  moreover have "set rs = {j. j < 3 \<and> started (bk t j)}"
    using o(4) i unfolding bk by (auto simp: started_def)
  moreover have "set (ls @ [i]) = {j. j < 3 \<and> passed (bk t j)}"
    using o(5) i unfolding bk by (auto simp: passed_def)
  ultimately show ?thesis using o(2) unfolding bout_ok_def by blast
qed

lemma bsem_zero: "bsem_ok s \<Longrightarrow> bk s i \<in> {BRelease, BExit, BReaped} \<Longrightarrow> bsem s = 0"
  unfolding bsem_ok_def by (elim conjE allE [of _ i]) (rule mp)

lemma bshape_gone: "bshape s \<Longrightarrow> bpar s \<in> {BRemove, BGone} \<Longrightarrow> i < 3 \<Longrightarrow> bk s i = BReaped"
  unfolding bshape_def by (elim conjE) simp

lemma bshape_range:
  assumes "bshape s" and "bk s i \<noteq> BNone" shows "i < 3"
proof (rule ccontr)
  assume "\<not> i < 3"
  with assms show False by (simp add: bshape_def)
qed

lemma bshape_upd:
  assumes sh: "bshape s" and "bk s i \<noteq> BNone" and "bpar s \<notin> {BRemove, BGone}"
    and k: "k \<noteq> BNone" "\<And>h. k \<noteq> BDead h"
    and t: "bk t = (bk s)(i := k)" "bpar t = bpar s" "bset t = bset s"
  shows "bshape t"
proof -
  have i: "i < 3" using bshape_range [OF sh assms(2)] .
  have "\<not> (\<exists>n \<le> i. bpar s = BFork n)" using sh i assms(2) unfolding bshape_def by blast
  then show ?thesis
    using sh k assms(3) i unfolding bshape_def t by simp
qed

lemma not_passed_before:
  assumes "bsem_ok s" and "i < 3" and "changed (bk s i) = 0"
  shows "bk s j \<notin> {BRelease, BExit, BReaped}" "0 < bsem s"
proof -
  have "arrivals s \<noteq> 3" using arrivals_max [OF _ assms(2)] assms(3) by (metis zero_neq_one)
  moreover have "bsem s + arrivals s = 3" using assms(1) unfolding bsem_ok_def by (rule conjunct1)
  ultimately show "0 < bsem s" by linarith
  then show "bk s j \<notin> {BRelease, BExit, BReaped}"
    using bsem_zero [OF assms(1), of j] by (metis less_irrefl)
qed

lemma bsem_ok_upd:
  assumes sem: "bsem_ok s" and i: "i < 3"
    and t: "bk t = (bk s)(i := k)" "bsem t + changed k = bsem s + changed (bk s i)"
    and "k \<in> {BRelease, BExit, BReaped} \<Longrightarrow> bsem s = 0" and "bsem s = 0 \<Longrightarrow> changed (bk s i) = changed k"
    and "bsem t \<noteq> bsem s \<Longrightarrow> changed (bk s i) = 0"
  shows "bsem_ok t"
proof -
  have "bsem t + arrivals t = 3"
    using arrivals_upd [OF i t(1)] t(2) sem by (simp add: bsem_ok_def)
  moreover have "bsem t = 0" if "bk t j \<in> {BRelease, BExit, BReaped}" for j
  proof (cases "j = i")
    case True
    then have "bsem s = 0" using that assms(5) t(1) by simp
    then show ?thesis using assms(6) t(2) by simp
  next
    case False
    then have j: "bk s j \<in> {BRelease, BExit, BReaped}" using that t(1) by simp
    then have "bsem t = bsem s" using not_passed_before(1) [OF sem i] assms(7) by blast
    moreover have "bsem s = 0" using bsem_zero [OF sem j] .
    ultimately show ?thesis by simp
  qed
  ultimately show ?thesis unfolding bsem_ok_def by blast
qed

lemma barrier_worker_inv:
  assumes inv: "barrier_inv s" and step: "barrier_worker i s = Some t"
  shows "barrier_inv t"
proof -
  have sem: "bsem_ok s" and sh: "bshape s" and out: "bout_ok s" using inv by (simp_all add: barrier_inv_def)
  have n: "bk s i \<noteq> BNone" "bk s i \<noteq> BReaped" using step by (auto simp: barrier_worker_def)
  have i: "i < 3" using bshape_range [OF sh n(1)] .
  have par: "bpar s \<notin> {BRemove, BGone}" using bshape_gone [OF sh _ i] n(2) by blast
  from step show ?thesis
  proof (cases rule: barrier_workerE)
    case reach
    have "\<forall>j < 3. \<not> passed (bk s j)"
      using not_passed_before(1) [OF sem i] reach(1) by (auto simp: changed_def passed_def)
    then have "bout_ok t" using i reach by (intro bout_ok_reach [OF out, of i]) (auto simp: started_def)
    moreover have "bsem_ok t" using reach by (intro bsem_ok_upd [OF sem i, of _ BChange]) (auto simp: changed_def)
    moreover have "bshape t" using reach n par by (intro bshape_upd [OF sh, of i BChange]) auto
    ultimately show ?thesis by (simp add: barrier_inv_def)
  next
    case dec
    have "bout_ok t" using dec by (intro bout_ok_same [OF out]) (auto simp: started_def passed_def)
    moreover have "bsem_ok t" using dec by (intro bsem_ok_upd [OF sem i, of _ BWait]) (auto simp: changed_def)
    moreover have "bshape t" using dec n par by (intro bshape_upd [OF sh, of i BWait]) auto
    ultimately show ?thesis by (simp add: barrier_inv_def)
  next
    case zero
    have "bout_ok t" using zero by (intro bout_ok_same [OF out]) (auto simp: started_def passed_def)
    moreover have "bsem_ok t" using zero by (intro bsem_ok_upd [OF sem i, of _ BRelease]) (auto simp: changed_def)
    moreover have "bshape t" using zero n par by (intro bshape_upd [OF sh, of i BRelease]) auto
    ultimately show ?thesis by (simp add: barrier_inv_def)
  next
    case release
    have "bsem s = 0" using bsem_zero [OF sem, of i] release(1) by simp
    then have "bsem_ok t" using release by (intro bsem_ok_upd [OF sem i, of _ BExit]) (auto simp: changed_def)
    moreover have "bout_ok t" using i release by (intro bout_ok_release [OF out, of i]) auto
    moreover have "bshape t" using release n par by (intro bshape_upd [OF sh, of i BExit]) auto
    ultimately show ?thesis by (simp add: barrier_inv_def)
  qed
qed

lemma bfork_at_simps [simp]:
  "bfork_at i = BFork n \<longleftrightarrow> n = i \<and> i < 3" "bfork_at i \<noteq> BRemove" "bfork_at i \<noteq> BGone"
  by (auto simp: bfork_at_def BARRIER_WORKERS_def)

lemma barrier_fork_inv:
  assumes inv: "barrier_inv s" and par: "bpar s = BFork i"
  shows "barrier_inv (s\<lparr>bk := (bk s)(i := BReach), bpar := bfork_at (Suc i)\<rparr>)" (is "barrier_inv ?t")
proof -
  have sem: "bsem_ok s" and sh: "bshape s" and out: "bout_ok s" using inv by (simp_all add: barrier_inv_def)
  have i: "i < 3" and n: "bk s i = BNone" using sh par by (auto simp: bshape_def)
  have "bout_ok ?t" using n by (intro bout_ok_same [OF out]) (auto simp: started_def passed_def)
  moreover have "bsem_ok ?t" using n by (intro bsem_ok_upd [OF sem i, of _ BReach]) (auto simp: changed_def)
  moreover have "bshape ?t"
    using sh par i unfolding bshape_def by (auto simp: Suc_le_eq nat_less_le)
  ultimately show ?thesis by (simp add: barrier_inv_def)
qed

lemma barrier_inv_par:
  assumes inv: "barrier_inv s" and t: "bk t = bk s" "bsem t = bsem s" "bout t = bout s"
    and "bshape t"
  shows "barrier_inv t"
  using assms by (simp add: barrier_inv_def bsem_ok_def bout_ok_def arrivals_def)

lemma barrier_parent_inv:
  assumes inv: "barrier_inv s" and step: "barrier_parent s = Some t"
  shows "barrier_inv t"
proof (cases "bpar s")
  case (BFork i)
  then show ?thesis using barrier_fork_inv [OF inv] step by (auto simp: barrier_parent_def)
next
  case BReap
  have sh: "bshape s" using inv by (simp add: barrier_inv_def)
  have t: "t = s\<lparr>bpar := BRemove\<rparr>" and w: "\<forall>i<3. bwaited (bk s i)"
    using step BReap by (auto simp: barrier_parent_def BARRIER_WORKERS_def split: if_splits)
  have "bk s i = BReaped" if "i < 3" for i
  proof -
    have "bk s i \<noteq> BNone" using sh BReap that by (auto simp: bshape_def)
    then show ?thesis using w that by (cases "bk s i") auto
  qed
  then have "bshape t" using sh BReap t by (auto simp: bshape_def)
  then show ?thesis using barrier_inv_par [OF inv] t by simp
next
  case BRemove
  have sh: "bshape s" using inv by (simp add: barrier_inv_def)
  have t: "t = s\<lparr>bset := False, bpar := BGone\<rparr>" using step BRemove by (auto simp: barrier_parent_def)
  then have "bshape t" using sh BRemove by (auto simp: bshape_def)
  then show ?thesis using barrier_inv_par [OF inv] t by simp
next
  case BGone
  then show ?thesis using step by (simp add: barrier_parent_def)
qed

lemma barrier_reapD:
  "barrier_reap i s = Some t \<Longrightarrow> bpar s = BReap \<and> (bk s i = BExit \<or> (\<exists>h. bk s i = BDead h))
     \<and> t = s\<lparr>bk := (bk s)(i := BReaped)\<rparr>"
  by (auto simp: barrier_reap_def split: if_splits bpc.splits)

lemma barrier_reap_inv:
  assumes inv: "barrier_inv s" and step: "barrier_reap i s = Some t"
  shows "barrier_inv t"
proof -
  have sem: "bsem_ok s" and sh: "bshape s" and out: "bout_ok s" using inv by (simp_all add: barrier_inv_def)
  have d: "bpar s = BReap" and t: "t = s\<lparr>bk := (bk s)(i := BReaped)\<rparr>" and e: "bk s i = BExit"
    using barrier_reapD [OF step] sh by (auto simp: bshape_def)
  have i: "i < 3" using bshape_range [OF sh] e by simp
  have "bsem s = 0" using bsem_zero [OF sem, of i] e by simp
  then have "bsem_ok t" using e t by (intro bsem_ok_upd [OF sem i, of _ BReaped]) (auto simp: changed_def)
  moreover have "bout_ok t" using e t by (intro bout_ok_same [OF out]) (auto simp: started_def passed_def)
  moreover have "bshape t" using e t d by (intro bshape_upd [OF sh, of i BReaped]) auto
  ultimately show ?thesis by (simp add: barrier_inv_def)
qed

lemma bclean_cases:
  assumes "only bclean barrier_nxt a s = Some t"
  obtains (parent) "barrier_parent s = Some t" | (worker) i where "barrier_worker i s = Some t"
  | (reap) i where "barrier_reap i s = Some t"
  using assms by (cases a) (auto simp: only_def)

lemma barrier_inv_step: "barrier_inv s \<Longrightarrow> only bclean barrier_nxt a s = Some t \<Longrightarrow> barrier_inv t"
  by (erule bclean_cases) (fact barrier_parent_inv barrier_worker_inv barrier_reap_inv)+

subsection \<open>Termination\<close>

fun b_rank :: "bpc \<Rightarrow> nat" where
  "b_rank BNone = 6"
| "b_rank BReach = 5"
| "b_rank BChange = 4"
| "b_rank BWait = 3"
| "b_rank BRelease = 2"
| "b_rank BExit = 1"
| "b_rank BReaped = 0"
| "b_rank (BDead h) = 1"

fun bp_rank :: "bparent \<Rightarrow> nat" where
  "bp_rank (BFork i) = 3"
| "bp_rank BReap = 2"
| "bp_rank BRemove = 1"
| "bp_rank BGone = 0"

definition barrier_msr :: "barrier \<Rightarrow> nat" where
  "barrier_msr s = bp_rank (bpar s) + (\<Sum>i<3. b_rank (bk s i))"

lemma barrier_msr_upd:
  assumes "i < 3" and "b_rank k < b_rank (bk s i)" and "bk t = (bk s)(i := k)"
    and "bp_rank (bpar t) \<le> bp_rank (bpar s)"
  shows "barrier_msr t < barrier_msr s"
proof -
  have "(\<Sum>n<3. b_rank (bk t n)) < (\<Sum>n<3. b_rank (bk s n))"
    using assms(1,2) by (intro sum_upd_less [of i]) (simp_all add: assms(3))
  with assms(4) show ?thesis by (simp add: barrier_msr_def)
qed

lemma barrier_decreases:
  assumes inv: "barrier_inv s" and step: "only bclean barrier_nxt a s = Some t"
  shows "barrier_msr t < barrier_msr s"
proof -
  have sh: "bshape s" using inv by (simp add: barrier_inv_def)
  from step show ?thesis
  proof (cases rule: bclean_cases)
    case parent
    show ?thesis
    proof (cases "bpar s")
      case (BFork i)
      then have "i < 3" "bk s i = BNone" using sh by (auto simp: bshape_def)
      then show ?thesis
        using BFork parent
        by (intro barrier_msr_upd [of i BReach]) (auto simp: barrier_parent_def bfork_at_def)
    qed (use parent in \<open>auto simp: barrier_parent_def barrier_msr_def split: if_splits\<close>)
  next
    case (worker i)
    then have "bk s i \<noteq> BNone" by (auto simp: barrier_worker_def)
    then have i: "i < 3" by (rule bshape_range [OF sh])
    from worker show ?thesis
      by (cases rule: barrier_workerE) (auto intro!: barrier_msr_upd [OF i])
  next
    case (reap i)
    then have e: "bk s i = BExit" "t = s\<lparr>bk := (bk s)(i := BReaped)\<rparr>"
      using barrier_reapD [OF reap] sh by (auto simp: bshape_def)
    then have "i < 3" using bshape_range [OF sh] by simp
    then show ?thesis using e by (intro barrier_msr_upd [of i BReaped]) auto
  qed
qed

lemma barrier_worker_can:
  assumes sem: "bsem_ok s" and i: "i < 3" and "bk s i \<in> {BReach, BChange, BRelease}"
  shows "\<exists>t. barrier_worker i s = Some t"
proof -
  have "0 < bsem s" if "bk s i = BChange"
    using not_passed_before(2) [OF sem i] that by (simp add: changed_def)
  then show ?thesis using assms(3) by (auto simp: barrier_worker_def change_def)
qed

lemma barrier_reap_progress:
  assumes inv: "barrier_inv s" and par: "bpar s = BReap" and i: "i < 3" "\<not> bwaited (bk s i)"
  shows "\<exists>a t. bclean a \<and> barrier_nxt a s = Some t"
proof -
  have sem: "bsem_ok s" and sh: "bshape s" using inv by (simp_all add: barrier_inv_def)
  have worker: "\<exists>a t. bclean a \<and> barrier_nxt a s = Some t" if "\<exists>t. barrier_worker j s = Some t" for j
    using that by (intro exI [of _ "BWorker j"]) simp
  show ?thesis
  proof (cases "bk s i")
    case BWait
    show ?thesis
    proof (cases "bsem s = 0")
      case True
      then show ?thesis using BWait by (intro worker [of i]) (simp add: barrier_worker_def wait_zero_def)
    next
      case False
      then have "arrivals s \<noteq> 3" using sem by (auto simp: bsem_ok_def)
      then obtain j where j: "j < 3" "changed (bk s j) = 0" using arrivals_missing by blast
      have "bk s j \<noteq> BNone" using sh par j by (auto simp: bshape_def)
      then have "bk s j \<in> {BReach, BChange, BRelease}"
        using j sh by (cases "bk s j") (auto simp: changed_def bshape_def)
      then show ?thesis using barrier_worker_can [OF sem j(1)] worker by blast
    qed
  next
    case BExit
    then have "barrier_nxt (BReapWorker i) s = Some (s\<lparr>bk := (bk s)(i := BReaped)\<rparr>)"
      using par by (simp add: barrier_reap_def)
    then show ?thesis by (intro exI [of _ "BReapWorker i"]) simp
  next
    case (BDead h)
    then show ?thesis using sh by (simp add: bshape_def)
  qed (use i worker barrier_worker_can [OF sem i(1)] in auto)
qed

definition barrier_done :: "barrier \<Rightarrow> bool" where
  "barrier_done s \<longleftrightarrow> bpar s = BGone"

lemma barrier_progress:
  assumes inv: "barrier_inv s" and nd: "\<not> barrier_done s"
  shows "\<exists>a t. only bclean barrier_nxt a s = Some t"
proof -
  have "\<exists>a t. bclean a \<and> barrier_nxt a s = Some t"
  proof (cases "bpar s = BReap \<and> (\<exists>i<3. \<not> bwaited (bk s i))")
    case True
    then show ?thesis using barrier_reap_progress [OF inv] by blast
  next
    case False
    then have "\<exists>t. barrier_nxt BParent s = Some t"
      using nd by (cases "bpar s") (auto simp: barrier_parent_def barrier_done_def BARRIER_WORKERS_def)
    then show ?thesis by (intro exI [of _ BParent]) simp
  qed
  then show ?thesis by (metis only_def)
qed

definition barrier_start :: barrier where
  "barrier_start = \<lparr>bsem = 3, bk = (\<lambda>i. BNone), bpar = BFork 0, bout = [], bset = True\<rparr>"

lemma barrier_setup_start: "barrier_setup None True = Inr barrier_start"
  by (simp add: barrier_setup_def barrier_start_def bfork_at_def BARRIER_WORKERS_def)

interpretation bar: terminating_system "only bclean barrier_nxt" barrier_start barrier_inv
  barrier_msr barrier_done
proof unfold_locales
  show "barrier_inv barrier_start"
    by (simp add: barrier_inv_def bsem_ok_def bshape_def bout_ok_def barrier_start_def arrivals_def
        changed_def started_def passed_def)
qed (fact barrier_inv_step barrier_decreases barrier_progress)+

text \<open>
  Only two workers are started: both reach the barrier and wait there, and the parent for them. When the values of the
  semaphores were not set, even the first worker waits.
\<close>

lemma barrier_two_workers:
  "\<exists>u. run barrier_nxt ([BParent, BParent, BForkFails] @ [BWorker 0, BWorker 0, BWorker 1, BWorker 1]) barrier_start
       = Some u
     \<and> stuck (only bclean barrier_nxt) u \<and> bpar u = BReap \<and> bk u 0 = BWait \<and> bk u 1 = BWait"
proof -
  let ?u = "\<lparr>bsem = 1, bk = (\<lambda>i. BNone)(0 := BWait, 1 := BWait), bpar = BReap, bout = [Reached 0, Reached 1], bset = True\<rparr>"
  have "run barrier_nxt ([BParent, BParent, BForkFails] @ [BWorker 0, BWorker 0, BWorker 1, BWorker 1]) barrier_start
      = Some ?u"
    by (simp add: barrier_start_def barrier_parent_def barrier_fork_fails_def barrier_worker_def bfork_at_def
        BARRIER_WORKERS_def change_def fun_upd_twist)
  moreover have "only bclean barrier_nxt a ?u = None" for a
    by (cases a)
      (auto simp: only_def barrier_parent_def barrier_worker_def barrier_reap_def wait_zero_def BARRIER_WORKERS_def)
  ultimately show ?thesis by (intro exI [of _ ?u]) (simp add: stuck_def)
qed

lemma barrier_unset:
  "\<exists>s u. barrier_setup None False = Inr s \<and> run barrier_nxt [BParent, BWorker 0] s = Some u
     \<and> barrier_nxt (BWorker 0) u = None \<and> bk u 0 = BChange"
  by (simp add: barrier_setup_def barrier_parent_def barrier_worker_def bfork_at_def BARRIER_WORKERS_def change_def)

subsection \<open>Properties\<close>

text \<open>
  C17: The barrier holds: at every moment of every interleaving the output consists of arrivals
  followed by releases, and there is a release only when all three workers have arrived. The
  program never deadlocks, ends within 21 steps, and its output is then the three arrivals in some
  order and the three releases in some order. When the third \<open>fork\<close> fails, which is not tested, both workers and the parent
  wait for ever.
\<close>

theorem barrier_separates:
  assumes "barrier_setup None True = Inr s" and "run barrier_nxt as s = Some t" and "\<forall>a \<in> set as. bclean a"
  shows "length as \<le> 21
    \<and> (\<exists>rs ls. bout t = map Reached rs @ map Released ls \<and> distinct rs \<and> distinct ls
         \<and> (ls \<noteq> [] \<longrightarrow> set rs = {0, 1, 2}) \<and> (bpar t = BGone \<longrightarrow> set rs = {0, 1, 2} \<and> set ls = {0, 1, 2}))
    \<and> (\<exists>bs u. list_all bclean bs \<and> run barrier_nxt (as @ bs) s = Some u \<and> bpar u = BGone)
    \<and> (\<exists>bs u. run barrier_nxt ([BParent, BParent, BForkFails] @ bs) s = Some u
         \<and> stuck (only bclean barrier_nxt) u \<and> bpar u = BReap \<and> bk u 0 = BWait \<and> bk u 1 = BWait)"
proof -
  have s: "s = barrier_start" using assms(1) by (simp add: barrier_setup_start)
  have r: "run (only bclean barrier_nxt) as barrier_start = Some t"
    using assms(2,3) by (simp add: run_only s)
  have three: "{i. i < (3::nat)} = {0, 1, 2}" by auto
  have inv: "bsem_ok t" "bshape t" "bout_ok t"
    using bar.inv_reached [OF r] by (simp_all add: barrier_inv_def)
  obtain rs ls where o: "bout t = map Reached rs @ map Released ls" "distinct rs" "distinct ls"
    "set rs = {i. i < 3 \<and> started (bk t i)}" "set ls = {i. i < 3 \<and> passed (bk t i)}"
    using inv(3) by (auto simp: bout_ok_def)
  have all: "set rs = {0, 1, 2}" if z: "bsem t = 0"
  proof -
    have "arrivals t = 3" using inv(1) z by (simp add: bsem_ok_def)
    then have "started (bk t i)" if "i < 3" for i
      using arrivals_max [of t i] that by (auto simp: changed_def started_def split: if_splits)
    then show ?thesis unfolding o(4) three [symmetric] by auto
  qed
  have rel: "set rs = {0, 1, 2}" if l: "ls \<noteq> []"
  proof -
    obtain i where "i \<in> set ls" using l by (cases ls) auto
    then have "bk t i \<in> {BRelease, BExit, BReaped}" using o(5) by (auto simp: passed_def)
    then show ?thesis by (intro all bsem_zero [OF inv(1)])
  qed
  have fin: "set ls = {0, 1, 2}" if "bpar t = BGone"
    unfolding o(5) three [symmetric] using bshape_gone [OF inv(2)] that by (auto simp: passed_def)
  have "set rs = {0, 1, 2} \<and> set ls = {0, 1, 2}" if g: "bpar t = BGone"
  proof -
    have "ls \<noteq> []" using fin [OF g] by (metis empty_not_insert list.set(1))
    then show ?thesis by (intro conjI rel fin [OF g])
  qed
  then have "\<exists>rs ls. bout t = map Reached rs @ map Released ls \<and> distinct rs \<and> distinct ls
      \<and> (ls \<noteq> [] \<longrightarrow> set rs = {0, 1, 2}) \<and> (bpar t = BGone \<longrightarrow> set rs = {0, 1, 2} \<and> set ls = {0, 1, 2})"
    using o(1-3) rel by (intro exI [of _ rs] exI [of _ ls] conjI impI) simp_all
  moreover have "length as \<le> 21"
    using bar.bounded [OF r] by (simp add: barrier_msr_def barrier_start_def)
  moreover have "\<exists>bs u. list_all bclean bs \<and> run barrier_nxt (as @ bs) s = Some u \<and> bpar u = BGone"
    using bar.completes [OF r] by (auto simp: s barrier_done_def dest: run_only_run run_only_list)
  moreover have "\<exists>bs u. run barrier_nxt ([BParent, BParent, BForkFails] @ bs) s = Some u
      \<and> stuck (only bclean barrier_nxt) u \<and> bpar u = BReap \<and> bk u 0 = BWait \<and> bk u 1 = BWait"
    unfolding s using barrier_two_workers by blast
  ultimately show ?thesis by (intro conjI)
qed

lemma barrier_fork_run:
  "run barrier_nxt [BParent] barrier_start
     = Some (barrier_start\<lparr>bk := (bk barrier_start)(0 := BReach), bpar := BFork 1\<rparr>)"
  by (simp add: barrier_start_def barrier_parent_def bfork_at_def BARRIER_WORKERS_def)

theorem barrier_separates_witness:
  "barrier_setup None True = Inr barrier_start
     \<and> (\<exists>bs u. run barrier_nxt ([BParent] @ bs) barrier_start = Some u \<and> bpar u = BGone)"
proof -
  have "\<forall>a \<in> set [BParent]. bclean a" by simp
  from barrier_separates [OF barrier_setup_start barrier_fork_run this] show ?thesis
    using barrier_setup_start by blast
qed

end
