(* ===== verification/FileLocks.thy ===== *)
theory FileLocks
  imports RecordLocks
begin

text \<open>
  The programs of \<open>FileLocking/\<close> besides the counter, over the table of record locks: two processes
  that take two locks in the same order (\<open>deadlock_avoidance_ordering.c\<close>), locks on disjoint ranges
  (\<open>fcntl_byte_range_locks.c\<close>), a lock file (\<open>lockfile_single_instance.c\<close>) and \<open>flock\<close>
  (\<open>flock_parent_child.c\<close>). The first two are small systems that are explored completely.
\<close>

subsection \<open>Two locks in the same order\<close>

definition lock_byte :: "nat \<Rightarrow> nat \<Rightarrow> nat lock_table \<Rightarrow> nat lock_table option" where
  "lock_byte i byte tbl = fcntl_lock i F_WRLCK \<lparr>l_start = byte, l_len = 1\<rparr> tbl"

datatype okid = ONone | OLock0 | OLock1 | OPrint | OExit | OZombie | OReaped

datatype oparent = OFork nat | OReaping | OUnlink | OGone

record ordered =
  otable :: "nat lock_table"
  okids :: "okid list"
  opar :: oparent
  oprinted :: "nat list" \<comment> \<open>the children whose line has been printed\<close>
  ofile :: bool

definition ordered_line :: "int \<Rightarrow> string" where
  "ordered_line pid = ''process '' @ fmt_d pid @ '' acquired locks in global order'' @ [newline]"

text \<open>A child: the two locks, the line, and the exit, which drops its locks.\<close>

definition ordered_kid :: "nat \<Rightarrow> ordered \<Rightarrow> ordered option" where
  "ordered_kid i s =
     (if 2 \<le> i then None
      else
        (case okids s ! i of
           OLock0 \<Rightarrow>
             (case lock_byte i 0 (otable s) of
                None \<Rightarrow> None
              | Some tbl \<Rightarrow> Some (s\<lparr>otable := tbl, okids := (okids s)[i := OLock1]\<rparr>))
         | OLock1 \<Rightarrow>
             (case lock_byte i 1 (otable s) of
                None \<Rightarrow> None
              | Some tbl \<Rightarrow> Some (s\<lparr>otable := tbl, okids := (okids s)[i := OPrint]\<rparr>))
         | OPrint \<Rightarrow> Some (s\<lparr>oprinted := oprinted s @ [i], okids := (okids s)[i := OExit]\<rparr>)
         | OExit \<Rightarrow> Some (s\<lparr>otable := drop_owner i (otable s), okids := (okids s)[i := OZombie]\<rparr>)
         | _ \<Rightarrow> None))"

text \<open>A lock call that fails makes the child exit with status 1, without its line.\<close>

definition ordered_kid_fails :: "nat \<Rightarrow> ordered \<Rightarrow> ordered option" where
  "ordered_kid_fails i s =
     (if 2 \<le> i then None
      else if okids s ! i \<in> {OLock0, OLock1} then Some (s\<lparr>okids := (okids s)[i := OExit]\<rparr>)
      else None)"

definition ofork_at :: "nat \<Rightarrow> oparent" where
  "ofork_at i = (if i < 2 then OFork i else OReaping)"

definition ordered_parent :: "ordered \<Rightarrow> ordered option" where
  "ordered_parent s =
     (case opar s of
        OFork i \<Rightarrow> Some (s\<lparr>okids := (okids s)[i := OLock0], opar := ofork_at (i + 1)\<rparr>)
      | OReaping \<Rightarrow>
          (if list_all (\<lambda>k. k \<in> {ONone, OReaped}) (okids s) then Some (s\<lparr>opar := OUnlink\<rparr>) else None)
      | OUnlink \<Rightarrow> Some (s\<lparr>ofile := False, opar := OGone\<rparr>)
      | OGone \<Rightarrow> None)"

definition ordered_fork_fails :: "ordered \<Rightarrow> ordered option" where
  "ordered_fork_fails s = (case opar s of OFork i \<Rightarrow> Some (s\<lparr>opar := ofork_at (i + 1)\<rparr>) | _ \<Rightarrow> None)"

definition ordered_reap :: "nat \<Rightarrow> ordered \<Rightarrow> ordered option" where
  "ordered_reap i s =
     (if i < 2 \<and> opar s = OReaping \<and> okids s ! i = OZombie
      then Some (s\<lparr>okids := (okids s)[i := OReaped]\<rparr>) else None)"

datatype oact = OParent | OForkFails | OKid nat | OKidFails nat | OReap nat

fun ordered_nxt :: "oact \<Rightarrow> ordered \<Rightarrow> ordered option" where
  "ordered_nxt OParent s = ordered_parent s"
| "ordered_nxt OForkFails s = ordered_fork_fails s"
| "ordered_nxt (OKid i) s = ordered_kid i s"
| "ordered_nxt (OKidFails i) s = ordered_kid_fails i s"
| "ordered_nxt (OReap i) s = ordered_reap i s"

definition ordered_start :: ordered where
  "ordered_start = \<lparr>otable = [], okids = [ONone, ONone], opar = OFork 0, oprinted = [], ofile = True\<rparr>"

definition ordered_setup :: "errno option \<Rightarrow> ordered res" where
  "ordered_setup open_res =
     (case open_res of Some e \<Rightarrow> Inl (die_errno ''open'' e) | None \<Rightarrow> Inr ordered_start)"

definition ordered_acts :: "oact list" where
  "ordered_acts = [OParent, OForkFails, OKid 0, OKid 1, OKidFails 0, OKidFails 1, OReap 0, OReap 1]"

text \<open>Steps that do not fail.\<close>

fun oclean :: "oact \<Rightarrow> bool" where
  "oclean OForkFails = False"
| "oclean (OKidFails i) = False"
| "oclean a = True"

text \<open>
  The two children never hold both locks together, and only final states allow no step that does not fail.
\<close>

definition ordered_ok :: "ordered \<Rightarrow> bool" where
  "ordered_ok s \<longleftrightarrow>
     \<not> (okids s ! 0 = OPrint \<and> okids s ! 1 = OPrint)
     \<and> distinct (oprinted s)
     \<and> (idle (only oclean ordered_nxt) ordered_acts s \<longrightarrow> opar s = OGone \<and> \<not> ofile s \<and> otable s = [])"

interpretation ordering: explored_system ordered_nxt ordered_acts ordered_start ordered_ok 20
proof unfold_locales
  fix a s
  assume "a \<notin> set ordered_acts"
  then show "ordered_nxt a s = None"
    by (cases a) (auto simp: ordered_acts_def ordered_kid_def ordered_kid_fails_def ordered_reap_def
        numeral_2_eq_2 less_Suc_eq not_le Suc_le_eq)
next
  show "explore ordered_nxt ordered_acts ordered_ok 20 [ordered_start]"
    by code_simp
qed

text \<open>Without failures both children print their line.\<close>

definition ordered_both :: "ordered \<Rightarrow> bool" where
  "ordered_both s \<longleftrightarrow>
     (opar s = OGone \<longrightarrow> oprinted s \<in> {[0, 1], [1, 0]})"

interpretation ordering_clean: explored_system "only oclean ordered_nxt" ordered_acts ordered_start
  ordered_both 20
proof unfold_locales
  show "only oclean ordered_nxt a s = None" if "a \<notin> set ordered_acts" for a s
    using ordering.all_acts [OF that] by (simp add: only_def)
  show "explore (only oclean ordered_nxt) ordered_acts ordered_both 20 [ordered_start]"
    by code_simp
qed

subsection \<open>Disjoint ranges\<close>

text \<open>The call is granted, waits, or fails with an error that ends the process.\<close>

datatype lock_turn = Granted "nat lock_table" | Waits | Fails halt

definition lock_range :: "nat \<Rightarrow> nat \<Rightarrow> nat \<Rightarrow> errno option \<Rightarrow> nat lock_table \<Rightarrow> lock_turn" where
  "lock_range i start len fault tbl =
     (case fault of
        Some e \<Rightarrow> Fails (die_errno ''fcntl lock'' e)
      | None \<Rightarrow>
          (case fcntl_lock i F_WRLCK \<lparr>l_start = start, l_len = len\<rparr> tbl of
             None \<Rightarrow> Waits
           | Some t \<Rightarrow> Granted t))"

datatype rkid = RNone | RLock | RWrite | RPrint | RExit | RZombie | RReaped

datatype rparent = RForkLeft | RForkRight | RWaitLeft | RWaitRight | RUnlink | RGone | RDied halt

record ranges =
  rtable :: "nat lock_table"
  left :: rkid
  right :: rkid
  rpar :: rparent
  rwrites :: "(nat \<times> string) list" \<comment> \<open>the \<open>pwrite\<close> calls: offset and data\<close>
  rout :: "string list"
  rfile :: bool

text \<open>The left child is process 0 and the right one process 1.\<close>

definition left_step :: "errno option \<Rightarrow> ranges \<Rightarrow> ranges option" where
  "left_step fault s =
     (case left s of
        RLock \<Rightarrow>
          (case lock_range 0 0 32 fault (rtable s) of
             Granted tbl \<Rightarrow> Some (s\<lparr>rtable := tbl, left := RWrite\<rparr>)
           | Waits \<Rightarrow> None
           | Fails h \<Rightarrow> Some (s\<lparr>left := RExit\<rparr>))
      | RWrite \<Rightarrow> Some (s\<lparr>rwrites := rwrites s @ [(0, ''left-range'' @ [newline])], left := RPrint\<rparr>)
      | RPrint \<Rightarrow> Some (s\<lparr>rout := rout s @ [''child locked bytes 0..31'' @ [newline]], left := RExit\<rparr>)
      | RExit \<Rightarrow> Some (s\<lparr>rtable := drop_owner 0 (rtable s), left := RZombie\<rparr>)
      | _ \<Rightarrow> None)"

definition right_step :: "errno option \<Rightarrow> ranges \<Rightarrow> ranges option" where
  "right_step fault s =
     (case right s of
        RLock \<Rightarrow>
          (case lock_range 1 64 32 fault (rtable s) of
             Granted tbl \<Rightarrow> Some (s\<lparr>rtable := tbl, right := RWrite\<rparr>)
           | Waits \<Rightarrow> None
           | Fails h \<Rightarrow> Some (s\<lparr>right := RExit\<rparr>))
      | RWrite \<Rightarrow> Some (s\<lparr>rwrites := rwrites s @ [(64, ''right-range'' @ [newline])], right := RPrint\<rparr>)
      | RPrint \<Rightarrow> Some (s\<lparr>rout := rout s @ [''child locked bytes 64..95'' @ [newline]], right := RExit\<rparr>)
      | RExit \<Rightarrow> Some (s\<lparr>rtable := drop_owner 1 (rtable s), right := RZombie\<rparr>)
      | _ \<Rightarrow> None)"

text \<open>
  The parent does not test the results of its forks; \<open>wait_for_pid\<close> of \<open>-1\<close> waits for any child and
  exits when there is none.
\<close>

definition no_child :: halt where
  "no_child = die_errno ''waitpid'' ECHILD"

definition wait_any :: "rparent \<Rightarrow> ranges \<Rightarrow> ranges option" where
  "wait_any pc s =
     (if left s = RZombie then Some (s\<lparr>left := RReaped, rpar := pc\<rparr>)
      else if right s = RZombie then Some (s\<lparr>right := RReaped, rpar := pc\<rparr>)
      else if left s \<in> {RNone, RReaped} \<and> right s \<in> {RNone, RReaped}
      then Some (s\<lparr>rpar := RDied no_child\<rparr>)
      else None)"

definition ranges_parent :: "bool \<Rightarrow> bool \<Rightarrow> ranges \<Rightarrow> ranges option" where
  "ranges_parent left_forked right_forked s =
     (case rpar s of
        RForkLeft \<Rightarrow> Some (s\<lparr>left := (if left_forked then RLock else RNone), rpar := RForkRight\<rparr>)
      | RForkRight \<Rightarrow> Some (s\<lparr>right := (if right_forked then RLock else RNone), rpar := RWaitLeft\<rparr>)
      | RWaitLeft \<Rightarrow>
          (if \<not> left_forked then wait_any RWaitRight s
           else if left s = RZombie then Some (s\<lparr>left := RReaped, rpar := RWaitRight\<rparr>)
           else None)
      | RWaitRight \<Rightarrow>
          (if \<not> right_forked then wait_any RUnlink s
           else if right s = RZombie then Some (s\<lparr>right := RReaped, rpar := RUnlink\<rparr>)
           else if right s = RReaped then Some (s\<lparr>rpar := RDied no_child\<rparr>)
           else None)
      | RUnlink \<Rightarrow> Some (s\<lparr>rfile := False, rpar := RGone\<rparr>)
      | _ \<Rightarrow> None)"

datatype ract = RParent | RLeft | RRight

text \<open>
  The parameters are what the kernel decides: whether the two forks succeed and the results of the
  two \<open>fcntl\<close> calls. The error message of a child whose lock fails goes to its standard error; the
  parent does not look at the status.
\<close>

fun ranges_nxt :: "bool \<Rightarrow> bool \<Rightarrow> errno option \<Rightarrow> errno option \<Rightarrow> ract \<Rightarrow> ranges \<Rightarrow> ranges option" where
  "ranges_nxt lf rf lx rx RParent s = ranges_parent lf rf s"
| "ranges_nxt lf rf lx rx RLeft s = left_step lx s"
| "ranges_nxt lf rf lx rx RRight s = right_step rx s"

definition ranges_start :: ranges where
  "ranges_start = \<lparr>rtable = [], left = RNone, right = RNone, rpar = RForkLeft, rwrites = [], rout = [],
     rfile = True\<rparr>"

definition ranges_setup :: "errno option \<Rightarrow> ranges res" where
  "ranges_setup open_res =
     (case open_res of Some e \<Rightarrow> Inl (die_errno ''open'' e) | None \<Rightarrow> Inr ranges_start)"

text \<open>No child ever waits for its lock, and every run ends as the forks and the calls decide.\<close>

definition range_lines :: "bool \<Rightarrow> bool \<Rightarrow> bool \<Rightarrow> bool \<Rightarrow> nat" where
  "range_lines lf rf lx rx = of_bool (lf \<and> \<not> lx) + of_bool (rf \<and> \<not> rx)"

definition ranges_ok :: "bool \<Rightarrow> bool \<Rightarrow> errno option \<Rightarrow> errno option \<Rightarrow> ranges \<Rightarrow> bool" where
  "ranges_ok lf rf lx rx s \<longleftrightarrow>
     (left s = RLock \<longrightarrow> left_step lx s \<noteq> None) \<and> (right s = RLock \<longrightarrow> right_step rx s \<noteq> None)
     \<and> (idle (ranges_nxt lf rf lx rx) [RParent, RLeft, RRight] s \<longrightarrow>
          length (rout s) = range_lines lf rf (lx \<noteq> None) (rx \<noteq> None)
          \<and> length (rwrites s) = range_lines lf rf (lx \<noteq> None) (rx \<noteq> None)
          \<and> (if lf \<and> rf then rpar s = RGone \<and> \<not> rfile s else rpar s = RDied no_child \<and> rfile s))"

text \<open>A failed call leaves the same state whatever its error is.\<close>

definition some_fault :: "bool \<Rightarrow> errno option" where
  "some_fault b = (if b then Some EDEADLK else None)"

lemma left_step_fault: "left_step lx s = left_step (some_fault (lx \<noteq> None)) s"
  by (cases lx) (simp_all add: left_step_def lock_range_def some_fault_def split: rkid.splits)

lemma right_step_fault: "right_step rx s = right_step (some_fault (rx \<noteq> None)) s"
  by (cases rx) (simp_all add: right_step_def lock_range_def some_fault_def split: rkid.splits)

lemma ranges_nxt_fault:
  "ranges_nxt lf rf lx rx = ranges_nxt lf rf (some_fault (lx \<noteq> None)) (some_fault (rx \<noteq> None))"
proof (intro ext)
  fix a s
  show "ranges_nxt lf rf lx rx a s = ranges_nxt lf rf (some_fault (lx \<noteq> None)) (some_fault (rx \<noteq> None)) a s"
    using left_step_fault [of lx s] right_step_fault [of rx s] by (cases a) simp_all
qed

lemma ranges_ok_fault:
  "ranges_ok lf rf lx rx = ranges_ok lf rf (some_fault (lx \<noteq> None)) (some_fault (rx \<noteq> None))"
proof
  fix s
  have f: "(some_fault (x \<noteq> None) \<noteq> None) = (x \<noteq> None)" for x by (simp add: some_fault_def)
  show "ranges_ok lf rf lx rx s = ranges_ok lf rf (some_fault (lx \<noteq> None)) (some_fault (rx \<noteq> None)) s"
    unfolding ranges_ok_def f ranges_nxt_fault [of lf rf lx rx]
      left_step_fault [of lx s] right_step_fault [of rx s] ..
qed

lemma ranges_explored:
  "explore (ranges_nxt lf rf (some_fault lx) (some_fault rx)) [RParent, RLeft, RRight]
     (ranges_ok lf rf (some_fault lx) (some_fault rx)) 20 [ranges_start]"
proof -
  have "list_all (\<lambda>(lf, rf, lx, rx).
      explore (ranges_nxt lf rf (some_fault lx) (some_fault rx)) [RParent, RLeft, RRight]
        (ranges_ok lf rf (some_fault lx) (some_fault rx)) 20 [ranges_start])
    (List.product [True, False] (List.product [True, False] (List.product [True, False] [True, False])))"
    by code_simp
  then show ?thesis unfolding list_all_iff by (cases lf; cases rf; cases lx; cases rx) auto
qed

interpretation ranges_sys: explored_system "ranges_nxt lf rf lx rx" "[RParent, RLeft, RRight]"
  ranges_start "ranges_ok lf rf lx rx" 20 for lf rf lx rx
proof (rule explored_system.intro)
  show "ranges_nxt lf rf lx rx a s = None" if "a \<notin> set [RParent, RLeft, RRight]" for a s
    using that by (cases a) auto
  show "explore (ranges_nxt lf rf lx rx) [RParent, RLeft, RRight] (ranges_ok lf rf lx rx) 20 [ranges_start]"
    unfolding ranges_nxt_fault [of lf rf lx rx] ranges_ok_fault [of lf rf lx rx] by (rule ranges_explored)
qed

subsection \<open>The lock file\<close>

text \<open>
  Writing at the start of a file replaces as many bytes as are written: the file is opened
  without \<open>O_TRUNC\<close>.
\<close>

definition write_at_start :: "string \<Rightarrow> string \<Rightarrow> string" where
  "write_at_start bytes content = bytes @ drop (length bytes) content"

text \<open>\<open>try_lock\<close> fails on a bad descriptor and on a lock that another process holds.\<close>

definition try_lock :: "nat \<Rightarrow> bool \<Rightarrow> nat lock_table \<Rightarrow> errno + nat lock_table" where
  "try_lock pid fd_ok tbl =
     (if \<not> fd_ok then Inl EBADF
      else
        (case fcntl_lock pid F_WRLCK \<lparr>l_start = 0, l_len = 0\<rparr> tbl of
           None \<Rightarrow> Inl EAGAIN
         | Some t \<Rightarrow> Inr t))"

text \<open>
  The whole program, from a lock table and the lock file, \<open>None\<close> when it does not exist: the result of
  \<open>open\<close>, the number of the process and the result of its untested \<open>fork\<close>, and whether the child's
  \<open>open\<close>, which is not tested either, succeeds. The values are the output, the child's exit status,
  the contents of the lock file and the table while the child tries its lock; then the lock file
  that is left.
\<close>

definition lockfile_main ::
  "errno option \<Rightarrow> nat \<Rightarrow> nat option \<Rightarrow> bool \<Rightarrow> string option \<Rightarrow> nat lock_table \<Rightarrow>
     (string \<times> nat \<times> string \<times> nat lock_table) res \<times> string option" where
  "lockfile_main open_res pid forked child_open lockfile tbl =
     (case open_res of
        Some e \<Rightarrow> (Inl (die_errno ''open'' e), lockfile)
      | None \<Rightarrow>
          (let content = (case lockfile of None \<Rightarrow> [] | Some c \<Rightarrow> c) in
           case try_lock pid True tbl of
             Inl e \<Rightarrow> (Inl (die_errno ''initial lock'' e), Some content)
           | Inr held \<Rightarrow>
               (let content' = write_at_start (fmt_d (int pid) @ [newline]) content in
                case forked of
                  None \<Rightarrow> (Inl no_child, Some content')
                | Some child \<Rightarrow>
                    (case try_lock child child_open held of
                       Inl e \<Rightarrow>
                         (Inr (''second instance rejected by advisory lock'' @ [newline], 0, content', held), None)
                     | Inr t \<Rightarrow> (Inr ([], 1, content', held), None)))))"

subsection \<open>flock\<close>

text \<open>
  \<open>flock\<close> locks belong to an open file description. The table is the one that holds the exclusive
  lock of the file, if any; \<open>None\<close> as the result is a lock held by another description.
\<close>

definition flock_ex :: "nat \<Rightarrow> nat option \<Rightarrow> nat option option" where
  "flock_ex ofd holder =
     (case holder of None \<Rightarrow> Some (Some ofd) | Some q \<Rightarrow> if q = ofd then Some (Some ofd) else None)"

definition flock_un :: "nat \<Rightarrow> nat option \<Rightarrow> nat option" where
  "flock_un ofd holder = (if holder = Some ofd then None else holder)"

text \<open>
  The parent's description is 0 and the one the child opens is 1. The first \<open>flock\<close> waits while
  another process holds the lock (\<open>None\<close>: it has not returned); the \<open>fork\<close> and the child's \<open>open\<close> are
  not tested. The last value is whether the file exists at the end.
\<close>

definition flock_main ::
  "errno option \<Rightarrow> errno option \<Rightarrow> bool \<Rightarrow> bool \<Rightarrow> bool \<Rightarrow> nat option \<Rightarrow>
     ((string \<times> nat \<times> nat option) res \<times> bool) option" where
  "flock_main open_res flock_res forked child_open existed holder =
     (case open_res of
        Some e \<Rightarrow> Some (Inl (die_errno ''open'' e), existed)
      | None \<Rightarrow>
          (case flock_res of
             Some e \<Rightarrow> Some (Inl (die_errno ''flock parent'' e), True)
           | None \<Rightarrow>
               (case flock_ex 0 holder of
                  None \<Rightarrow> None
                | Some held \<Rightarrow>
                    if \<not> forked then Some (Inl no_child, True)
                    else
                      Some (Inr
                        (if child_open \<and> flock_ex 1 held \<noteq> None then ([], 1, flock_un 0 held)
                         else (''child could not acquire competing flock while parent holds it'' @ [newline], 0,
                               flock_un 0 held)), False))))"

subsection \<open>Properties\<close>

text \<open>
  C18: Taking the two locks in the same order never deadlocks, whatever forks and lock calls have failed
  before: every schedule has fewer than 20 steps, and where no step is possible that does not fail the
  program has ended, with the file removed and no lock held. The children are never both between their
  second lock and their exit. When nothing fails both lines are printed.
\<close>

theorem ordered_locks:
  assumes "ordered_setup None = Inr s" and "run ordered_nxt as s = Some t"
  shows "length as < 20 \<and> \<not> (okids t ! 0 = OPrint \<and> okids t ! 1 = OPrint)
    \<and> (stuck (only oclean ordered_nxt) t \<longrightarrow> opar t = OGone \<and> \<not> ofile t \<and> otable t = [])
    \<and> (list_all oclean as \<and> opar t = OGone \<longrightarrow> oprinted t \<in> {[0, 1], [1, 0]})"
proof -
  have s: "s = ordered_start" using assms(1) by (simp add: ordered_setup_def)
  have r: "run ordered_nxt as ordered_start = Some t" using assms(2) s by simp
  have "stuck (only oclean ordered_nxt) t \<longrightarrow> opar t = OGone \<and> \<not> ofile t \<and> otable t = []"
    using ordering.checked_run [OF r] unfolding ordering_clean.stuck_idle ordered_ok_def by blast
  moreover have "\<not> (okids t ! 0 = OPrint \<and> okids t ! 1 = OPrint)"
    using ordering.checked_run [OF r] unfolding ordered_ok_def by blast
  moreover have "oprinted t \<in> {[0, 1], [1, 0]}" if c: "list_all oclean as" and g: "opar t = OGone"
  proof -
    have "run (only oclean ordered_nxt) as ordered_start = Some t"
      using r c by (simp add: run_only list_all_iff)
    then have "ordered_both t" by (rule ordering_clean.checked_run)
    then show ?thesis using g by (simp add: ordered_both_def)
  qed
  ultimately show ?thesis using ordering.run_bound [OF r] by blast
qed

text \<open>A schedule in which the second child waits for the first.\<close>

definition ordered_schedule :: "oact list" where
  "ordered_schedule =
     [OParent, OParent, OKid 0, OKid 0, OKid 0, OKid 0, OKid 1, OKid 1, OKid 1, OKid 1, OReap 1, OReap 0,
      OParent, OParent]"

definition ordered_end :: ordered where
  "ordered_end = \<lparr>otable = [], okids = [OReaped, OReaped], opar = OGone, oprinted = [0, 1], ofile = False\<rparr>"

lemma ordered_schedule_run: "run ordered_nxt ordered_schedule ordered_start = Some ordered_end"
  by code_simp

theorem ordered_locks_witness:
  "run ordered_nxt ordered_schedule ordered_start = Some ordered_end
     \<and> oprinted ordered_end \<in> {[0, 1], [1, 0]}"
proof -
  have "ordered_setup None = Inr ordered_start" by (simp add: ordered_setup_def)
  moreover have "list_all oclean ordered_schedule" "opar ordered_end = OGone"
    by (simp_all add: ordered_schedule_def ordered_end_def)
  ultimately show ?thesis using ordered_locks [OF _ ordered_schedule_run] ordered_schedule_run by blast
qed

text \<open>
  C19: The ranges of the two children are disjoint, so neither ever waits for its lock. When both
  forks succeed every schedule leads to the end with the file removed; each child has then printed
  its line, unless its \<open>fcntl\<close> failed, which the parent does not notice. When a fork fails, which is
  not tested, the parent waits for \<open>-1\<close> and exits with an error that there is no child, and the file
  stays.
\<close>

theorem ranges_outcome:
  assumes "ranges_setup None = Inr s" and "run (ranges_nxt lf rf lx rx) as s = Some t"
  shows "length as < 20
    \<and> (left t = RLock \<longrightarrow> left_step lx t \<noteq> None) \<and> (right t = RLock \<longrightarrow> right_step rx t \<noteq> None)
    \<and> (\<exists>bs u. run (ranges_nxt lf rf lx rx) (as @ bs) s = Some u
          \<and> length (rout u) = of_bool (lf \<and> lx = None) + of_bool (rf \<and> rx = None)
          \<and> (if lf \<and> rf then rpar u = RGone \<and> \<not> rfile u
              else rpar u = RDied (die_errno ''waitpid'' ECHILD) \<and> rfile u))"
proof -
  have s: "s = ranges_start" using assms(1) by (simp add: ranges_setup_def)
  note r = assms(2) [unfolded s]
  obtain bs u where u: "run (ranges_nxt lf rf lx rx) (as @ bs) ranges_start = Some u"
    "idle (ranges_nxt lf rf lx rx) [RParent, RLeft, RRight] u" using ranges_sys.run_to_idle [OF r] by blast
  have "length (rout u) = of_bool (lf \<and> lx = None) + of_bool (rf \<and> rx = None)
      \<and> (if lf \<and> rf then rpar u = RGone \<and> \<not> rfile u
          else rpar u = RDied (die_errno ''waitpid'' ECHILD) \<and> rfile u)"
    using ranges_sys.checked_run [OF u(1)] u(2) by (simp add: ranges_ok_def no_child_def range_lines_def)
  moreover have "(left t = RLock \<longrightarrow> left_step lx t \<noteq> None) \<and> (right t = RLock \<longrightarrow> right_step rx t \<noteq> None)"
    using ranges_sys.checked_run [OF r] unfolding ranges_ok_def by blast
  ultimately show ?thesis using ranges_sys.run_bound [OF r] u(1) s by blast
qed

theorem ranges_outcome_witness:
  "ranges_setup None = Inr ranges_start
     \<and> (\<exists>bs u. run (ranges_nxt False True None None) ([] @ bs) ranges_start = Some u
           \<and> rpar u = RDied (die_errno ''waitpid'' ECHILD) \<and> rfile u)
     \<and> (\<exists>bs u. run (ranges_nxt True True (Some EDEADLK) None) ([] @ bs) ranges_start = Some u
           \<and> length (rout u) = 1 \<and> rpar u = RGone)"
proof -
  have "ranges_setup None = Inr ranges_start" by (simp add: ranges_setup_def)
  from this ranges_outcome [OF this, of False True None None "[]" ranges_start]
    ranges_outcome [OF this, of True True "Some EDEADLK" None "[]" ranges_start]
  show ?thesis by auto
qed

text \<open>
  C20: Once the first process has its lock on the lock file, no other process owns any byte of it,
  and the second instance is rejected. The lock file then starts with the number of the process,
  but keeps what an earlier, longer entry left behind it, since the file is not truncated; it is
  removed at the end. A failed \<open>fork\<close> ends the program in \<open>waitpid\<close>, with the lock file left behind.
\<close>

theorem lockfile_excludes:
  fixes content :: string
  assumes "try_lock pid True tbl = Inr held" and "child \<noteq> pid"
  defines "entry \<equiv> fmt_d (int pid) @ newline # drop (length (fmt_d (int pid)) + 1) content"
  shows "lockfile_main None pid (Some child) child_open (Some content) tbl
      = (Inr (''second instance rejected by advisory lock'' @ [newline], 0, entry, held), None)
    \<and> lockfile_main None pid None child_open (Some content) tbl
      = (Inl (die_errno ''waitpid'' ECHILD), Some entry)
    \<and> owns held pid b \<and> (owns held q b \<longrightarrow> q = pid)"
proof -
  let ?all = "\<lparr>l_start = 0, l_len = 0\<rparr> :: flock"
  have l: "fcntl_lock pid F_WRLCK ?all tbl = Some held"
    using assms(1) by (auto simp: try_lock_def split: option.splits)
  have c: "covers ?all b" for b by (simp add: covers_def)
  have o: "owns held q b \<longleftrightarrow> q = pid" for q b
    using fcntl_lock_owns [OF l, of q b] fcntl_lock_excludes [OF l, of q b] c by auto
  have "fcntl_lock child F_WRLCK ?all held = None"
    using fcntl_lock_excludes [of child ?all held _ pid 0] o c assms(2)
    by (cases "fcntl_lock child F_WRLCK ?all held") auto
  then have "try_lock child child_open held = Inl (if child_open then EAGAIN else EBADF)"
    by (simp add: try_lock_def)
  then show ?thesis using assms(1) o
    by (simp add: lockfile_main_def write_at_start_def entry_def no_child_def Let_def)
qed

theorem lockfile_excludes_witness:
  "lockfile_main None 7 (Some 8) True (Some (''12345'' @ [newline])) []
     = (Inr (''second instance rejected by advisory lock'' @ [newline], 0,
             ''7'' @ [newline] @ ''345'' @ [newline], [(7, \<lparr>l_start = 0, l_len = 0\<rparr>)]), None)"
  using lockfile_excludes [where pid = 7 and tbl = "[]" and held = "[(7, \<lparr>l_start = 0, l_len = 0\<rparr>)]"
      and child = 8 and child_open = True and content = "''12345'' @ [newline]"]
  by (simp add: try_lock_def fcntl_lock_def conflict_def take_out_def fmt_simps)

text \<open>
  While the parent holds its \<open>flock\<close> the child's attempt through a description of its own always
  fails; the same line is printed, and the same status returned, when the child could not even open
  the file, since the result of that \<open>open\<close> is not tested.
\<close>

theorem flock_competes:
  "flock_main None None True child_open existed None =
     Some (Inr (''child could not acquire competing flock while parent holds it'' @ [newline], 0, None), False)"
  by (simp add: flock_main_def flock_ex_def flock_un_def)

end
