(* ===== verification/SysVQueue.thy ===== *)
theory SysVQueue
  imports Common "HOL-Library.Multiset"
begin

text \<open>
  System V message queues, and \<open>MessageQueues/sysv_priority_workers.c\<close>: a main process that sends
  nine typed jobs to three workers, prints the nine results and stops the workers. A queue is a
  list of messages; \<open>msgrcv\<close> takes the first one of the type it asks for.
\<close>

subsection \<open>Queues\<close>

text \<open>The messages of the programs, one constructor for each C structure.\<close>

datatype msg =
    Job_msg (mtype: nat) (job_id: int) (jvalue: int)
  | Result_msg (mtype: nat) (job_id: int) (jvalue: int) (square: int) (wpid: int)
  | Request_msg (mtype: nat) (reply_type: nat) (arg_a: int) (arg_b: int)
  | Reply_msg (mtype: nat) (rsum: int) (rproduct: int)
  | Text_msg (mtype: nat) (mtext: string)

text \<open>The sizes of the messages without their type, and the kernel's limit for a queue.\<close>

fun msize :: "msg \<Rightarrow> nat" where
  "msize (Job_msg t i v) = 8"
| "msize (Result_msg t i v r p) = 24"
| "msize (Request_msg t r a b) = 16"
| "msize (Reply_msg t s p) = 8"
| "msize (Text_msg t x) = 32"

definition MSGMNB :: nat where
  "MSGMNB = 16384"

definition msgsnd :: "msg \<Rightarrow> msg list \<Rightarrow> msg list option" where
  "msgsnd m q = (if sum_list (map msize q) + msize m \<le> MSGMNB then Some (q @ [m]) else None)"

fun msgrcv :: "nat \<Rightarrow> msg list \<Rightarrow> (msg \<times> msg list) option" where
  "msgrcv t [] = None"
| "msgrcv t (m # q) =
     (if mtype m = t then Some (m, q)
      else (case msgrcv t q of None \<Rightarrow> None | Some (x, r) \<Rightarrow> Some (x, m # r)))"

lemma msgrcv_None: "msgrcv t q = None \<longleftrightarrow> (\<forall>m \<in> set q. mtype m \<noteq> t)"
  by (induction t q rule: msgrcv.induct) (auto split: option.splits)

lemma msgrcv_Some:
  "msgrcv t q = Some (m, r) \<Longrightarrow> mtype m = t \<and> mset q = add_mset m (mset r)"
  by (induction t q arbitrary: r rule: msgrcv.induct) (auto split: if_splits option.splits)

text \<open>The received message is the first of its type: the others of that type keep their order.\<close>

lemma msgrcv_fifo:
  "msgrcv t q = Some (m, r) \<Longrightarrow> filter (\<lambda>x. mtype x = t) q = m # filter (\<lambda>x. mtype x = t) r"
  by (induction t q arbitrary: r rule: msgrcv.induct) (auto split: if_splits option.splits)

lemma msgrcv_other:
  "msgrcv t q = Some (m, r) \<Longrightarrow> u \<noteq> t \<Longrightarrow> filter (\<lambda>x. mtype x = u) r = filter (\<lambda>x. mtype x = u) q"
  by (induction t q arbitrary: r rule: msgrcv.induct) (auto split: if_splits option.splits)

lemma msize_le: "msize m \<le> 32"
  by (cases m) auto

lemma msgsnd_fits: "length q \<le> 12 \<Longrightarrow> msgsnd m q = Some (q @ [m])"
proof -
  assume l: "length q \<le> 12"
  have "sum_list (map msize q) \<le> 32 * length q"
    by (induction q) (use msize_le in \<open>auto intro: add_mono\<close>)
  then show ?thesis using l msize_le [of m] by (simp add: msgsnd_def MSGMNB_def)
qed

subsection \<open>The processes\<close>

definition WORKERS :: nat where
  "WORKERS = 3"

definition JOBS :: nat where
  "JOBS = 9"

datatype wpc = WNone | WRecv | WSend msg | WExit | WReaped | WDead halt

datatype mpc = MFork nat | MSend nat | MRecv nat | MStop nat | MReap | MRemove | MGone | MDied halt

record workers_sys =
  mqueue :: "msg list"
  wk :: "nat \<Rightarrow> wpc"
  mpc :: mpc
  printed :: "msg list" \<comment> \<open>the results given to \<open>printf\<close>, in order\<close>
  qremoved :: bool

text \<open>One turn of a worker: receive a job of its type, and send the square of its value.\<close>

definition job_result :: "int \<Rightarrow> msg \<Rightarrow> msg" where
  "job_result pid job = Result_msg 100 (job_id job) (jvalue job) (jvalue job * jvalue job) pid"

definition worker_step :: "(nat \<Rightarrow> int) \<Rightarrow> nat \<Rightarrow> workers_sys \<Rightarrow> workers_sys option" where
  "worker_step pid w s =
     (case wk s w of
        WRecv \<Rightarrow>
          (case msgrcv w (mqueue s) of
             None \<Rightarrow> None
           | Some (job, q) \<Rightarrow>
               Some (s\<lparr>mqueue := q,
                       wk := (wk s)(w := if job_id job < 0 then WExit
                                         else WSend (job_result (pid w) job))\<rparr>))
      | WSend res \<Rightarrow>
          (case msgsnd res (mqueue s) of
             None \<Rightarrow> None
           | Some q \<Rightarrow> Some (s\<lparr>mqueue := q, wk := (wk s)(w := WRecv)\<rparr>))
      | _ \<Rightarrow> None)"

definition worker_fails :: "nat \<Rightarrow> errno \<Rightarrow> workers_sys \<Rightarrow> workers_sys option" where
  "worker_fails w e s =
     (case wk s w of
        WRecv \<Rightarrow> Some (s\<lparr>wk := (wk s)(w := WDead (die_errno ''msgrcv'' e))\<rparr>)
      | WSend res \<Rightarrow> Some (s\<lparr>wk := (wk s)(w := WDead (die_errno ''msgsnd result'' e))\<rparr>)
      | _ \<Rightarrow> None)"

definition job_of :: "nat \<Rightarrow> msg" where
  "job_of i = Job_msg (i mod WORKERS + 1) (int i + 1) (int i + 2)"

definition stop_of :: "nat \<Rightarrow> msg" where
  "stop_of w = Job_msg w (-1) 0"

text \<open>The loops of the main process, with the place they continue at when they end.\<close>

definition fork_at :: "nat \<Rightarrow> mpc" where
  "fork_at i = (if i \<le> WORKERS then MFork i else MSend 0)"

definition send_at :: "nat \<Rightarrow> mpc" where
  "send_at i = (if i < JOBS then MSend i else MRecv 0)"

definition recv_at :: "nat \<Rightarrow> mpc" where
  "recv_at i = (if i < JOBS then MRecv i else MStop 1)"

definition stop_at :: "nat \<Rightarrow> mpc" where
  "stop_at i = (if i \<le> WORKERS then MStop i else MReap)"

fun waited :: "wpc \<Rightarrow> bool" where
  "waited WNone = True"
| "waited WReaped = True"
| "waited w = False"

definition main_step :: "workers_sys \<Rightarrow> workers_sys option" where
  "main_step s =
     (case mpc s of
        MFork i \<Rightarrow> Some (s\<lparr>wk := (wk s)(i := WRecv), mpc := fork_at (i + 1)\<rparr>)
      | MSend i \<Rightarrow>
          (case msgsnd (job_of i) (mqueue s) of
             None \<Rightarrow> None
           | Some q \<Rightarrow> Some (s\<lparr>mqueue := q, mpc := send_at (i + 1)\<rparr>))
      | MRecv i \<Rightarrow>
          (case msgrcv 100 (mqueue s) of
             None \<Rightarrow> None
           | Some (m, q) \<Rightarrow> Some (s\<lparr>mqueue := q, printed := printed s @ [m], mpc := recv_at (i + 1)\<rparr>))
      | MStop i \<Rightarrow>
          (case msgsnd (stop_of i) (mqueue s) of
             None \<Rightarrow> None
           | Some q \<Rightarrow> Some (s\<lparr>mqueue := q, mpc := stop_at (i + 1)\<rparr>))
      | MReap \<Rightarrow>
          (if \<forall>w \<in> set [1..<WORKERS + 1]. waited (wk s w) then Some (s\<lparr>mpc := MRemove\<rparr>) else None)
      | MRemove \<Rightarrow> Some (s\<lparr>qremoved := True, mpc := MGone\<rparr>)
      | _ \<Rightarrow> None)"

text \<open>
  The calls of the main process that fail are not tested: a message that is not sent is lost, and a result that was not received is
  printed from an uninitialised structure.
\<close>

definition main_call_fails :: "workers_sys \<Rightarrow> workers_sys option" where
  "main_call_fails s =
     (case mpc s of
        MSend i \<Rightarrow> Some (s\<lparr>mpc := send_at (i + 1)\<rparr>)
      | MRecv i \<Rightarrow> Some (s\<lparr>mpc := MDied (Undef ''uninitialised result'')\<rparr>)
      | MStop i \<Rightarrow> Some (s\<lparr>mpc := stop_at (i + 1)\<rparr>)
      | _ \<Rightarrow> None)"

definition main_fork_fails :: "workers_sys \<Rightarrow> workers_sys option" where
  "main_fork_fails s = (case mpc s of MFork i \<Rightarrow> Some (s\<lparr>mpc := fork_at (i + 1)\<rparr>) | _ \<Rightarrow> None)"

definition reap_worker :: "nat \<Rightarrow> workers_sys \<Rightarrow> workers_sys option" where
  "reap_worker w s =
     (if mpc s \<noteq> MReap then None
      else
        (case wk s w of
           WExit \<Rightarrow> Some (s\<lparr>wk := (wk s)(w := WReaped)\<rparr>)
         | WDead h \<Rightarrow> Some (s\<lparr>wk := (wk s)(w := WReaped)\<rparr>)
         | _ \<Rightarrow> None))"

datatype workers_act =
    Main | MainForkFails | MainCallFails | Worker nat | WorkerFails nat errno | ReapWorker nat

fun workers_nxt :: "(nat \<Rightarrow> int) \<Rightarrow> workers_act \<Rightarrow> workers_sys \<Rightarrow> workers_sys option" where
  "workers_nxt pid Main s = main_step s"
| "workers_nxt pid MainForkFails s = main_fork_fails s"
| "workers_nxt pid MainCallFails s = main_call_fails s"
| "workers_nxt pid (Worker w) s = worker_step pid w s"
| "workers_nxt pid (WorkerFails w e) s = worker_fails w e s"
| "workers_nxt pid (ReapWorker w) s = reap_worker w s"

definition workers_setup :: "errno option \<Rightarrow> workers_sys res" where
  "workers_setup msgget_res =
     (case msgget_res of
        Some e \<Rightarrow> Inl (die_errno ''msgget'' e)
      | None \<Rightarrow> Inr \<lparr>mqueue = [], wk = (\<lambda>w. WNone), mpc = fork_at 1, printed = [], qremoved = False\<rparr>)"

definition result_line :: "msg \<Rightarrow> string" where
  "result_line m = ''job='' @ fmt_d (job_id m) @ '' value='' @ fmt_d (jvalue m)
     @ '' square='' @ fmt_d (square m) @ '' worker='' @ fmt_d (wpid m) @ [newline]"

fun no_failure :: "workers_act \<Rightarrow> bool" where
  "no_failure MainForkFails = False"
| "no_failure MainCallFails = False"
| "no_failure (WorkerFails w e) = False"
| "no_failure a = True"

subsection \<open>The moves without failures\<close>

lemma main_stepE:
  assumes "main_step s = Some t"
  obtains
    (fork) i where "mpc s = MFork i" "t = s\<lparr>wk := (wk s)(i := WRecv), mpc := fork_at (i + 1)\<rparr>"
  | (send) i q where "mpc s = MSend i" "msgsnd (job_of i) (mqueue s) = Some q"
      "t = s\<lparr>mqueue := q, mpc := send_at (i + 1)\<rparr>"
  | (recv) i m q where "mpc s = MRecv i" "msgrcv 100 (mqueue s) = Some (m, q)"
      "t = s\<lparr>mqueue := q, printed := printed s @ [m], mpc := recv_at (i + 1)\<rparr>"
  | (stop) i q where "mpc s = MStop i" "msgsnd (stop_of i) (mqueue s) = Some q"
      "t = s\<lparr>mqueue := q, mpc := stop_at (i + 1)\<rparr>"
  | (reaped) "mpc s = MReap" "\<forall>w \<in> {1, 2, 3}. waited (wk s w)" "t = s\<lparr>mpc := MRemove\<rparr>"
  | (remove) "mpc s = MRemove" "t = s\<lparr>qremoved := True, mpc := MGone\<rparr>"
proof -
  have up: "set [1..<WORKERS + 1] = {1, 2, 3}" by (auto simp: WORKERS_def)
  show thesis
  proof (cases "mpc s")
    case (MFork i)
    show thesis by (rule fork) (use assms MFork in \<open>auto simp: main_step_def\<close>)
  next
    case (MSend i)
    with assms obtain q where "msgsnd (job_of i) (mqueue s) = Some q" "t = s\<lparr>mqueue := q, mpc := send_at (i + 1)\<rparr>"
      by (auto simp: main_step_def split: option.splits)
    then show thesis by (rule send [OF MSend])
  next
    case (MRecv i)
    with assms obtain x q where "msgrcv 100 (mqueue s) = Some (x, q)"
        "t = s\<lparr>mqueue := q, printed := printed s @ [x], mpc := recv_at (i + 1)\<rparr>"
      by (auto simp: main_step_def split: option.splits)
    then show thesis by (rule recv [OF MRecv])
  next
    case (MStop i)
    with assms obtain q where "msgsnd (stop_of i) (mqueue s) = Some q" "t = s\<lparr>mqueue := q, mpc := stop_at (i + 1)\<rparr>"
      by (auto simp: main_step_def split: option.splits)
    then show thesis by (rule stop [OF MStop])
  next
    case MReap
    with assms up have "\<forall>w \<in> {1, 2, 3}. waited (wk s w)" "t = s\<lparr>mpc := MRemove\<rparr>"
      by (auto simp: main_step_def split: if_splits)
    then show thesis by (rule reaped [OF MReap])
  next
    case MRemove
    show thesis by (rule remove) (use assms MRemove in \<open>auto simp: main_step_def\<close>)
  next
    case MGone
    with assms have False by (simp add: main_step_def)
    then show thesis ..
  next
    case (MDied h)
    with assms have False by (simp add: main_step_def)
    then show thesis ..
  qed
qed

lemma worker_stepE:
  assumes "worker_step pid w s = Some t"
  obtains
    (take) job q where "wk s w = WRecv" "msgrcv w (mqueue s) = Some (job, q)"
      "t = s\<lparr>mqueue := q,
             wk := (wk s)(w := if job_id job < 0 then WExit else WSend (job_result (pid w) job))\<rparr>"
  | (reply) m q where "wk s w = WSend m" "msgsnd m (mqueue s) = Some q"
      "t = s\<lparr>mqueue := q, wk := (wk s)(w := WRecv)\<rparr>"
proof -
  from assms consider (1) "wk s w = WRecv" | (2) x where "wk s w = WSend x"
    by (auto simp: worker_step_def split: wpc.splits)
  then show thesis
  proof cases
    case 1
    with assms obtain job q where "msgrcv w (mqueue s) = Some (job, q)"
      "t = s\<lparr>mqueue := q,
             wk := (wk s)(w := if job_id job < 0 then WExit else WSend (job_result (pid w) job))\<rparr>"
      by (auto simp: worker_step_def split: option.splits)
    then show thesis by (rule take [OF 1])
  next
    case 2
    with assms obtain q where "msgsnd x (mqueue s) = Some q" "t = s\<lparr>mqueue := q, wk := (wk s)(w := WRecv)\<rparr>"
      by (auto simp: worker_step_def split: option.splits)
    then show thesis by (rule reply [OF 2])
  qed
qed

lemma reap_workerD:
  "reap_worker w s = Some t \<Longrightarrow> mpc s = MReap \<and> (wk s w = WExit \<or> (\<exists>h. wk s w = WDead h))
     \<and> t = s\<lparr>wk := (wk s)(w := WReaped)\<rparr>"
  by (auto simp: reap_worker_def split: if_splits wpc.splits)

lemma no_failure_cases:
  assumes "only no_failure (workers_nxt pid) a s = Some t"
  obtains (main) "main_step s = Some t" | (worker) w where "worker_step pid w s = Some t"
  | (reap) w where "reap_worker w s = Some t"
  using assms by (cases a) (auto simp: only_def)

subsection \<open>The invariant\<close>

definition result_of :: "(nat \<Rightarrow> int) \<Rightarrow> nat \<Rightarrow> msg" where
  "result_of pid k = job_result (pid (k mod 3 + 1)) (job_of k)"

fun held :: "wpc \<Rightarrow> msg list" where
  "held (WSend m) = [m]"
| "held w = []"

definition tokens :: "workers_sys \<Rightarrow> int multiset" where
  "tokens s = mset (map job_id (mqueue s)) + mset (map job_id (held (wk s 1)))
     + mset (map job_id (held (wk s 2))) + mset (map job_id (held (wk s 3)))
     + mset (map job_id (printed s))"

text \<open>
  While jobs are sent and results received: which workers exist, how many jobs have been sent and
  how many results have been printed, and that every job is at exactly one place.
\<close>

definition working :: "(nat \<Rightarrow> int) \<Rightarrow> nat \<Rightarrow> nat \<Rightarrow> nat \<Rightarrow> workers_sys \<Rightarrow> bool" where
  "working pid forked sent received s \<longleftrightarrow>
     (\<forall>m \<in> set (mqueue s). \<exists>k<9. m = job_of k \<or> m = result_of pid k)
     \<and> (\<forall>m \<in> set (printed s). \<exists>k<9. m = result_of pid k)
     \<and> (\<forall>w. 1 \<le> w \<and> w < forked \<longrightarrow> wk s w = WRecv \<or> (\<exists>k<9. wk s w = WSend (result_of pid k)))
     \<and> (\<forall>w. \<not> (1 \<le> w \<and> w < forked) \<longrightarrow> wk s w = WNone)
     \<and> tokens s = mset (map (\<lambda>k. int k + 1) [0..<sent])
     \<and> length (printed s) = received \<and> \<not> qremoved s"

text \<open>When all results are printed the queue holds only the stop messages not yet taken.\<close>

definition stopping :: "(nat \<Rightarrow> int) \<Rightarrow> nat \<Rightarrow> workers_sys \<Rightarrow> bool" where
  "stopping pid n s \<longleftrightarrow>
     (\<forall>m \<in> set (printed s). \<exists>k<9. m = result_of pid k)
     \<and> mset (map job_id (printed s)) = mset (map (\<lambda>k. int k + 1) [0..<9])
     \<and> distinct (mqueue s) \<and> set (mqueue s) = stop_of ` {w. 1 \<le> w \<and> w < n \<and> wk s w = WRecv}
     \<and> (\<forall>w. 1 \<le> w \<and> w \<le> 3 \<longrightarrow> wk s w \<in> {WRecv, WExit, WReaped} \<and> (n \<le> w \<longrightarrow> wk s w = WRecv))
     \<and> (\<forall>w. \<not> (1 \<le> w \<and> w \<le> 3) \<longrightarrow> wk s w = WNone)
     \<and> (mpc s \<in> {MRemove, MGone} \<longrightarrow> (\<forall>w. 1 \<le> w \<and> w \<le> 3 \<longrightarrow> wk s w = WReaped))
     \<and> (qremoved s \<longleftrightarrow> mpc s = MGone)"

text \<open>The phase of the main process, with the counts that go with it.\<close>

fun work_phase :: "mpc \<Rightarrow> (nat \<times> nat \<times> nat) option" where
  "work_phase (MFork i) = Some (i, 0, 0)"
| "work_phase (MSend i) = Some (4, i, 0)"
| "work_phase (MRecv i) = Some (4, 9, i)"
| "work_phase m = None"

fun stop_phase :: "mpc \<Rightarrow> nat" where
  "stop_phase (MStop i) = i"
| "stop_phase m = 4"

fun mpc_ok :: "mpc \<Rightarrow> bool" where
  "mpc_ok (MFork i) = (1 \<le> i \<and> i \<le> 3)"
| "mpc_ok (MSend i) = (i < 9)"
| "mpc_ok (MRecv i) = (i < 9)"
| "mpc_ok (MStop i) = (1 \<le> i \<and> i \<le> 3)"
| "mpc_ok (MDied h) = False"
| "mpc_ok m = True"

definition workers_inv :: "(nat \<Rightarrow> int) \<Rightarrow> workers_sys \<Rightarrow> bool" where
  "workers_inv pid s \<longleftrightarrow> mpc_ok (mpc s)
     \<and> (case work_phase (mpc s) of
          Some (f, n, i) \<Rightarrow> working pid f n i s
        | None \<Rightarrow> stopping pid (stop_phase (mpc s)) s)"

lemma msgsnd_Some: "msgsnd m q = Some r \<Longrightarrow> r = q @ [m]"
  by (auto simp: msgsnd_def split: if_splits)

lemma job_simps [simp]:
  "mtype (job_of k) = k mod 3 + 1" "job_id (job_of k) = int k + 1" "jvalue (job_of k) = int k + 2"
  "mtype (stop_of w) = w" "job_id (stop_of w) = -1"
  "mtype (result_of pid k) = 100" "job_id (result_of pid k) = int k + 1"
  by (simp_all add: job_of_def stop_of_def result_of_def job_result_def WORKERS_def)

lemma job_type_range: "k mod 3 + 1 \<noteq> (100::nat)" "1 \<le> k mod 3 + 1" "k mod 3 + 1 < (4::nat)"
proof -
  have "k mod 3 < (3::nat)" by simp
  then show "k mod 3 + 1 \<noteq> (100::nat)" "1 \<le> k mod 3 + 1" "k mod 3 + 1 < (4::nat)" by linarith+
qed

lemma tokens_move:
  assumes "w \<in> {1, 2, 3}" and "wk t = (wk s)(w := x)"
    and "mset (map job_id (mqueue t)) + mset (map job_id (held x)) + mset (map job_id (printed t))
       = mset (map job_id (mqueue s)) + mset (map job_id (held (wk s w))) + mset (map job_id (printed s))"
  shows "tokens t = tokens s"
  using assms by (auto simp: tokens_def ac_simps)

lemma tokens_same:
  "wk t = wk s \<Longrightarrow>
    mset (map job_id (mqueue t)) + mset (map job_id (printed t))
      = add_mset x (mset (map job_id (mqueue s)) + mset (map job_id (printed s))) \<Longrightarrow>
    tokens t = add_mset x (tokens s)"
  "wk t = wk s \<Longrightarrow>
    mset (map job_id (mqueue t)) + mset (map job_id (printed t))
      = mset (map job_id (mqueue s)) + mset (map job_id (printed s)) \<Longrightarrow> tokens t = tokens s"
  by (simp_all add: tokens_def ac_simps)

lemma working_fork:
  assumes "working pid i 0 0 s" and "1 \<le> i" "i \<le> 3"
  shows "working pid (Suc i) 0 0 (s\<lparr>wk := (wk s)(i := WRecv), mpc := x\<rparr>)"
proof -
  have "wk s i = WNone" using assms(1) by (simp add: working_def)
  then have "tokens (s\<lparr>wk := (wk s)(i := WRecv), mpc := x\<rparr>) = tokens s"
    using assms(2,3) by (intro tokens_move [of i _ _ WRecv]) auto
  then show ?thesis using assms by (auto simp: working_def)
qed

lemma working_send:
  assumes "working pid 4 i 0 s" and "i < 9"
  shows "working pid 4 (Suc i) 0 (s\<lparr>mqueue := mqueue s @ [job_of i], mpc := x\<rparr>)"
proof -
  have "tokens (s\<lparr>mqueue := mqueue s @ [job_of i], mpc := x\<rparr>) = add_mset (int i + 1) (tokens s)"
    by (rule tokens_same) simp_all
  then show ?thesis using assms by (auto simp: working_def)
qed

lemma working_recv:
  assumes w: "working pid 4 9 i s" and r: "msgrcv 100 (mqueue s) = Some (m, q)"
  shows "working pid 4 9 (Suc i) (s\<lparr>mqueue := q, printed := printed s @ [m], mpc := x\<rparr>)"
proof -
  have m: "mtype m = 100" "mset (mqueue s) = add_mset m (mset q)" using msgrcv_Some [OF r] by auto
  then have "m \<in> set (mqueue s)" and q: "set q \<subseteq> set (mqueue s)"
    by (auto simp flip: set_mset_mset)
  then obtain k where k: "k < 9" "m = job_of k \<or> m = result_of pid k"
    using w by (auto simp: working_def)
  then have res: "m = result_of pid k" using m(1) job_type_range by auto
  have "mset (map job_id (mqueue s)) = add_mset (job_id m) (mset (map job_id q))"
    using m(2) by simp
  then have "tokens (s\<lparr>mqueue := q, printed := printed s @ [m], mpc := x\<rparr>) = tokens s"
    by (intro tokens_same(2)) simp_all
  then show ?thesis using w q k(1) res unfolding working_def by auto
qed

lemma working_take:
  assumes w: "working pid f n i s" and f: "f \<le> 4" and wr: "wk s w = WRecv"
    and r: "msgrcv w (mqueue s) = Some (job, q)"
  shows "\<not> job_id job < 0
    \<and> working pid f n i (s\<lparr>mqueue := q, wk := (wk s)(w := WSend (job_result (pid w) job))\<rparr>)"
proof -
  have w3: "1 \<le> w \<and> w < f" using w wr by (force simp: working_def)
  have m: "mtype job = w" "mset (mqueue s) = add_mset job (mset q)" using msgrcv_Some [OF r] by auto
  then have "job \<in> set (mqueue s)" and q: "set q \<subseteq> set (mqueue s)"
    by (auto simp flip: set_mset_mset)
  then obtain k where k: "k < 9" "job = job_of k \<or> job = result_of pid k"
    using w by (auto simp: working_def)
  then have job: "job = job_of k" using m(1) w3 f by auto
  then have res: "job_result (pid w) job = result_of pid k" using m(1) by (simp add: result_of_def)
  have "mset (map job_id (mqueue s)) = add_mset (job_id job) (mset (map job_id q))"
    using m(2) by simp
  then have "tokens (s\<lparr>mqueue := q, wk := (wk s)(w := WSend (result_of pid k))\<rparr>) = tokens s"
    using w3 f wr job by (intro tokens_move [of w _ _ "WSend (result_of pid k)"]) auto
  then have "working pid f n i (s\<lparr>mqueue := q, wk := (wk s)(w := WSend (job_result (pid w) job))\<rparr>)"
    using w q k(1) w3 unfolding res working_def by auto
  then show ?thesis using job by simp
qed

lemma working_reply:
  assumes w: "working pid f n i s" and f: "f \<le> 4" and wr: "wk s w = WSend m"
  shows "working pid f n i (s\<lparr>mqueue := mqueue s @ [m], wk := (wk s)(w := WRecv)\<rparr>)"
proof -
  have w3: "1 \<le> w \<and> w < f" using w wr by (force simp: working_def)
  then obtain k where k: "k < 9" "m = result_of pid k" using w wr by (auto simp: working_def)
  have "tokens (s\<lparr>mqueue := mqueue s @ [m], wk := (wk s)(w := WRecv)\<rparr>) = tokens s"
    using w3 f wr by (intro tokens_move [of w _ _ WRecv]) auto
  then show ?thesis using w k w3 unfolding working_def by auto
qed

lemma working_done:
  assumes w: "working pid 4 9 9 s" and "mpc s = MStop 1"
  shows "stopping pid 1 s"
proof -
  have t: "tokens s = mset (map (\<lambda>k. int k + 1) [0..<9])" and l: "length (printed s) = 9"
    using w by (simp_all add: working_def)
  have "size (tokens s) = 9" unfolding t by simp
  then have e: "mqueue s = []" "held (wk s 1) = []" "held (wk s 2) = []" "held (wk s 3) = []"
    using l by (simp_all add: tokens_def)
  have "wk s v = WRecv" if "1 \<le> v" "v \<le> 3" for v
  proof -
    have "v = 1 \<or> v = 2 \<or> v = 3" using that by linarith
    then have "held (wk s v) = []" using e by auto
    moreover have "wk s v = WRecv \<or> (\<exists>k<9. wk s v = WSend (result_of pid k))"
      using w that by (simp add: working_def)
    ultimately show ?thesis by auto
  qed
  moreover have "mset (map job_id (printed s)) = mset (map (\<lambda>k. int k + 1) [0..<9])"
    using t e by (simp add: tokens_def)
  ultimately show ?thesis
    using w e(1) assms(2) unfolding stopping_def working_def by auto
qed

lemma stop_of_inj [simp]: "stop_of v = stop_of w \<longleftrightarrow> v = w"
  by (simp add: stop_of_def)

lemma stopping_stop:
  assumes st: "stopping pid i s" and "1 \<le> i" "i \<le> 3" and m: "mpc s = MStop i"
  shows "stopping pid (Suc i) (s\<lparr>mqueue := mqueue s @ [stop_of i], mpc := stop_at (Suc i)\<rparr>)"
proof -
  have r: "wk s i = WRecv" using st assms(2,3) by (simp add: stopping_def)
  have "{w. 1 \<le> w \<and> w < Suc i \<and> wk s w = WRecv} = insert i {w. 1 \<le> w \<and> w < i \<and> wk s w = WRecv}"
    using r assms(2) by (auto simp: less_Suc_eq)
  moreover have "stop_at (Suc i) \<notin> {MRemove, MGone}" by (simp add: stop_at_def)
  ultimately show ?thesis using st m unfolding stopping_def by (auto simp: stop_at_def)
qed

lemma stopping_take:
  assumes st: "stopping pid n s" and wr: "wk s w = WRecv" and m: "mpc s \<in> {MStop n, MReap}"
    and r: "msgrcv w (mqueue s) = Some (job, q)"
  shows "job_id job < 0 \<and> stopping pid n (s\<lparr>mqueue := q, wk := (wk s)(w := WExit)\<rparr>)"
proof -
  have job: "mtype job = w" "mset (mqueue s) = add_mset job (mset q)" using msgrcv_Some [OF r] by auto
  have "distinct (mqueue s)" using st by (simp add: stopping_def)
  then have d: "distinct (job # q)" using mset_eq_imp_distinct_iff [of "mqueue s" "job # q"] job(2) by simp
  have "set_mset (mset (mqueue s)) = insert job (set q)" unfolding job(2) by simp
  then have s: "set (mqueue s) = insert job (set q)" by simp
  have set: "set (mqueue s) = stop_of ` {w. 1 \<le> w \<and> w < n \<and> wk s w = WRecv}"
    using st by (simp add: stopping_def)
  then have "job \<in> stop_of ` {w. 1 \<le> w \<and> w < n \<and> wk s w = WRecv}" using s by blast
  then have js: "job = stop_of w" and w: "1 \<le> w" "w < n" using job(1) by auto
  have "set q = set (mqueue s) - {stop_of w}" using s d js by auto
  moreover have "{v. 1 \<le> v \<and> v < n \<and> ((wk s)(w := WExit)) v = WRecv}
      = {w. 1 \<le> w \<and> w < n \<and> wk s w = WRecv} - {w}" by auto
  moreover have "inj stop_of" by (simp add: inj_def)
  ultimately have "set q = stop_of ` {v. 1 \<le> v \<and> v < n \<and> ((wk s)(w := WExit)) v = WRecv}"
    by (simp only: set image_set_diff image_insert image_empty)
  moreover have "1 \<le> w \<and> w \<le> 3"
    using st wr by (cases "1 \<le> w \<and> w \<le> 3") (auto simp: stopping_def)
  moreover have "mpc s \<noteq> MRemove" "mpc s \<noteq> MGone" using m by auto
  ultimately have "stopping pid n (s\<lparr>mqueue := q, wk := (wk s)(w := WExit)\<rparr>)"
    using st d w(2) unfolding stopping_def by simp
  then show ?thesis using js by simp
qed

lemma stopping_reap:
  assumes "stopping pid 4 s" and "mpc s = MReap" and "wk s w = WExit"
  shows "stopping pid 4 (s\<lparr>wk := (wk s)(w := WReaped)\<rparr>)"
proof -
  have "1 \<le> w \<and> w \<le> 3" using assms(1,3) unfolding stopping_def by (metis wpc.distinct(5))
  moreover have "{v. 1 \<le> v \<and> v < 4 \<and> ((wk s)(w := WReaped)) v = WRecv} = {v. 1 \<le> v \<and> v < 4 \<and> wk s v = WRecv}"
    using assms(3) by auto
  ultimately show ?thesis using assms unfolding stopping_def by auto
qed

lemma main_inv:
  assumes inv: "workers_inv pid s" and step: "main_step s = Some t"
  shows "workers_inv pid t"
  using step
proof (cases rule: main_stepE)
  case (fork i)
  with inv have i: "1 \<le> i" "i \<le> 3" and w: "working pid i 0 0 s" by (simp_all add: workers_inv_def)
  have "working pid (Suc i) 0 0 t" using working_fork [OF w i] fork(2) by simp
  with i fork(2) show ?thesis
    by (cases "i = 3") (auto simp: workers_inv_def fork_at_def WORKERS_def)
next
  case (send i q)
  with inv have i: "i < 9" and w: "working pid 4 i 0 s" by (simp_all add: workers_inv_def)
  have "working pid 4 (Suc i) 0 t" using working_send [OF w i] send msgsnd_Some by simp
  with i send(3) show ?thesis
    by (cases "i = 8") (auto simp: workers_inv_def send_at_def JOBS_def)
next
  case (recv i m q)
  with inv have i: "i < 9" and w: "working pid 4 9 i s" by (simp_all add: workers_inv_def)
  have w': "working pid 4 9 (Suc i) t" using working_recv [OF w recv(2)] recv(3) by simp
  show ?thesis
  proof (cases "i = 8")
    case True
    then have "mpc t = MStop 1" using recv(3) by (simp add: recv_at_def JOBS_def)
    then show ?thesis using working_done [of pid t] w' True by (simp add: workers_inv_def)
  next
    case False
    then show ?thesis using w' i recv(3) by (simp add: workers_inv_def recv_at_def JOBS_def)
  qed
next
  case (stop i q)
  with inv have i: "1 \<le> i" "i \<le> 3" and st: "stopping pid i s" by (simp_all add: workers_inv_def)
  have "stopping pid (Suc i) t" using stopping_stop [OF st i stop(1)] stop msgsnd_Some by simp
  with i stop(3) show ?thesis
    by (cases "i = 3") (auto simp: workers_inv_def stop_at_def WORKERS_def)
next
  case reaped
  have w: "wk s w = WReaped" if "1 \<le> w" "w \<le> 3" for w
  proof -
    have "w = 1 \<or> w = 2 \<or> w = 3" using that by linarith
    then have "waited (wk s w)" using reaped(2) by auto
    moreover have "wk s w \<in> {WRecv, WExit, WReaped}"
      using inv reaped(1) that by (auto simp: workers_inv_def stopping_def)
    ultimately show ?thesis by auto
  qed
  then show ?thesis using inv reaped(1,3) by (auto simp: workers_inv_def stopping_def)
next
  case remove
  then show ?thesis using inv by (auto simp: workers_inv_def stopping_def)
qed

lemma phase_bound: "mpc_ok m \<Longrightarrow> work_phase m = Some (f, n, i) \<Longrightarrow> f \<le> 4"
  by (cases m) auto

lemma stopping_no_send:
  assumes "stopping pid n s" shows "wk s w \<noteq> WSend m"
  using assms by (cases "1 \<le> w \<and> w \<le> 3") (auto simp: stopping_def)

lemma stopping_not_removed:
  assumes "stopping pid n s" and "wk s w = WRecv" shows "mpc s \<notin> {MRemove, MGone}"
  using assms by (cases "1 \<le> w \<and> w \<le> 3") (auto simp: stopping_def)

lemma worker_inv:
  assumes inv: "workers_inv pid s" and step: "worker_step pid w s = Some t"
  shows "workers_inv pid t"
proof (cases "work_phase (mpc s)")
  case (Some x)
  obtain f n i where x: "x = (f, n, i)" by (cases x)
  have ok: "mpc_ok (mpc s)" and w: "working pid f n i s"
    using inv Some x by (simp_all add: workers_inv_def)
  have f: "f \<le> 4" using phase_bound [OF ok] Some x by simp
  from step have "working pid f n i t \<and> mpc t = mpc s"
  proof (cases rule: worker_stepE)
    case (take job q)
    then show ?thesis using working_take [OF w f take(1,2)] by simp
  next
    case (reply m q)
    then show ?thesis using working_reply [OF w f reply(1)] msgsnd_Some by simp
  qed
  then show ?thesis using ok Some x by (simp add: workers_inv_def)
next
  case None
  let ?n = "stop_phase (mpc s)"
  have ok: "mpc_ok (mpc s)" and st: "stopping pid ?n s"
    using inv None by (simp_all add: workers_inv_def)
  from step have "stopping pid ?n t \<and> mpc t = mpc s"
  proof (cases rule: worker_stepE)
    case (take job q)
    have "mpc s \<in> {MStop ?n, MReap}"
      using None ok stopping_not_removed [OF st take(1)] by (cases "mpc s") auto
    then show ?thesis using stopping_take [OF st take(1) _ take(2)] take(3) by simp
  next
    case (reply m q)
    then show ?thesis using stopping_no_send [OF st] by blast
  qed
  then show ?thesis using ok None by (simp add: workers_inv_def)
qed

lemma reap_inv:
  assumes inv: "workers_inv pid s" and step: "reap_worker w s = Some t"
  shows "workers_inv pid t"
proof -
  have m: "mpc s = MReap" and t: "t = s\<lparr>wk := (wk s)(w := WReaped)\<rparr>"
    and "wk s w = WExit \<or> (\<exists>h. wk s w = WDead h)" using reap_workerD [OF step] by auto
  moreover have st: "stopping pid 4 s" using inv m by (simp add: workers_inv_def)
  moreover have "wk s w \<noteq> WDead h" for h
    using st by (cases "1 \<le> w \<and> w \<le> 3") (auto simp: stopping_def)
  ultimately show ?thesis using stopping_reap [OF st m] by (auto simp: workers_inv_def)
qed

lemma workers_inv_step:
  "workers_inv pid s \<Longrightarrow> only no_failure (workers_nxt pid) a s = Some t \<Longrightarrow> workers_inv pid t"
  by (erule no_failure_cases) (fact main_inv worker_inv reap_inv)+

subsection \<open>Termination\<close>

fun msg_rank :: "msg \<Rightarrow> nat" where
  "msg_rank (Job_msg t i v) = 3"
| "msg_rank (Result_msg t i v r p) = 1"
| "msg_rank (Request_msg t r a b) = 0"
| "msg_rank (Reply_msg t s p) = 0"
| "msg_rank (Text_msg t x) = 0"

fun w_rank :: "wpc \<Rightarrow> nat" where
  "w_rank (WSend m) = 4 + msg_rank m"
| "w_rank WRecv = 3"
| "w_rank WNone = 3"
| "w_rank WExit = 2"
| "w_rank WReaped = 0"
| "w_rank (WDead h) = 2"

fun m_rank :: "mpc \<Rightarrow> nat" where
  "m_rank (MFork i) = 4 * (4 - i) + 80"
| "m_rank (MSend i) = 4 * (9 - i) + 40"
| "m_rank (MRecv i) = 9 - i + 25"
| "m_rank (MStop i) = 4 * (4 - i) + 5"
| "m_rank MReap = 3"
| "m_rank MRemove = 2"
| "m_rank MGone = 1"
| "m_rank (MDied h) = 0"

definition queue_rank :: "msg list \<Rightarrow> nat" where
  "queue_rank q = sum_list (map msg_rank q)"

definition workers_msr :: "workers_sys \<Rightarrow> nat" where
  "workers_msr s = m_rank (mpc s) + queue_rank (mqueue s)
     + (w_rank (wk s 1) + w_rank (wk s 2) + w_rank (wk s 3))"

lemma queue_rank_append [simp]: "queue_rank (q @ [m]) = queue_rank q + msg_rank m"
  by (simp add: queue_rank_def)

lemma queue_rank_msgrcv:
  assumes "msgrcv t q = Some (m, r)" shows "queue_rank q = queue_rank r + msg_rank m"
proof -
  have "queue_rank q = sum_mset (image_mset msg_rank (mset q))" for q
    by (simp add: queue_rank_def flip: sum_mset_sum_list)
  then show ?thesis using msgrcv_Some [OF assms] by simp
qed

lemma rank_simps [simp]: "msg_rank (job_of k) = 3" "msg_rank (stop_of k) = 3"
  "msg_rank (result_of pid k) = 1" "msg_rank (job_result p j) = 1"
  by (simp_all add: job_of_def stop_of_def result_of_def job_result_def)

lemma busy_range: "workers_inv pid s \<Longrightarrow> wk s w \<noteq> WNone \<Longrightarrow> w \<in> {1, 2, 3}"
proof -
  assume inv: "workers_inv pid s" and w: "wk s w \<noteq> WNone"
  have "1 \<le> w \<and> w \<le> 3"
  proof (cases "work_phase (mpc s)")
    case (Some x)
    obtain f n i where "x = (f, n, i)" by (cases x)
    then show ?thesis
      using inv w Some phase_bound [of "mpc s" f n i] by (force simp: workers_inv_def working_def)
  next
    case None
    then show ?thesis using inv w by (force simp: workers_inv_def stopping_def)
  qed
  then show ?thesis by auto
qed

lemma main_decreases:
  assumes inv: "workers_inv pid s" and step: "main_step s = Some t"
  shows "workers_msr t < workers_msr s"
proof -
  have ok: "mpc_ok (mpc s)" using inv by (simp add: workers_inv_def)
  from step show ?thesis
  proof (cases rule: main_stepE)
    case (fork i)
    then have "wk s i = WNone" using inv by (simp add: workers_inv_def working_def)
    then have "w_rank (((wk s)(i := WRecv)) v) = w_rank (wk s v)" for v by simp
    then show ?thesis using fork ok unfolding workers_msr_def
      by (auto simp: fork_at_def WORKERS_def simp del: fun_upd_apply)
  next
    case (send i q)
    then show ?thesis using ok msgsnd_Some [OF send(2)] by (auto simp: workers_msr_def send_at_def JOBS_def)
  next
    case (recv i m q)
    then show ?thesis using ok queue_rank_msgrcv [OF recv(2)]
      by (auto simp: workers_msr_def recv_at_def JOBS_def)
  next
    case (stop i q)
    then show ?thesis using ok msgsnd_Some [OF stop(2)]
      by (auto simp: workers_msr_def stop_at_def WORKERS_def)
  qed (simp_all add: workers_msr_def)
qed

lemma w_rank_upd:
  assumes "w \<in> {1, 2, 3}" and "w_rank x + d < w_rank (wk s w) + e"
    and "wk t = (wk s)(w := x)" "mpc t = mpc s" "queue_rank (mqueue t) + e = queue_rank (mqueue s) + d"
  shows "workers_msr t < workers_msr s"
  using assms by (auto simp: workers_msr_def)

lemma worker_decreases:
  assumes inv: "workers_inv pid s" and step: "worker_step pid w s = Some t"
  shows "workers_msr t < workers_msr s"
  using step
proof (cases rule: worker_stepE)
  case (take job q)
  then have w: "w \<in> {1, 2, 3}" using busy_range [OF inv, of w] by simp
  have "msg_rank job = 3"
  proof -
    obtain r where "mset (mqueue s) = add_mset job r" using msgrcv_Some [OF take(2)] by blast
    then have j: "job \<in> set (mqueue s)" by (metis set_mset_mset union_single_eq_member)
    have m: "mtype job \<noteq> 100" using msgrcv_Some [OF take(2)] w by auto
    show ?thesis
    proof (cases "work_phase (mpc s)")
      case (Some x)
      then have "\<forall>m \<in> set (mqueue s). \<exists>k<9. m = job_of k \<or> m = result_of pid k"
        using inv by (cases x) (simp add: workers_inv_def working_def)
      then obtain k where "job = job_of k \<or> job = result_of pid k" using j by blast
      then show ?thesis using m by auto
    next
      case None
      then show ?thesis using inv j by (auto simp: workers_inv_def stopping_def)
    qed
  qed
  then show ?thesis
    using take w queue_rank_msgrcv [OF take(2)]
    by (intro w_rank_upd [OF w, of "if job_id job < 0 then WExit else WSend (job_result (pid w) job)" 0 s 3]) auto
next
  case (reply m q)
  then have w: "w \<in> {1, 2, 3}" using busy_range [OF inv, of w] by simp
  show ?thesis
    using reply msgsnd_Some [OF reply(2)]
    by (intro w_rank_upd [OF w, of WRecv "msg_rank m" s 0]) auto
qed

lemma workers_decreases:
  assumes inv: "workers_inv pid s" and step: "only no_failure (workers_nxt pid) a s = Some t"
  shows "workers_msr t < workers_msr s"
  using step
proof (cases rule: no_failure_cases)
  case (reap w)
  then have t: "wk t = (wk s)(w := WReaped)" "mpc t = mpc s" "mqueue t = mqueue s"
    and k: "wk s w = WExit \<or> (\<exists>h. wk s w = WDead h)" using reap_workerD [OF reap] by auto
  have "w \<in> {1, 2, 3}" using k by (intro busy_range [OF inv]) auto
  then show ?thesis using t k by (intro w_rank_upd [of w WReaped 0 s 0]) auto
qed (use main_decreases worker_decreases inv in blast)+

lemma queue_short: "workers_inv pid s \<Longrightarrow> length (mqueue s) \<le> 12"
proof (cases "work_phase (mpc s)")
  case (Some x)
  obtain f n i where x: "x = (f, n, i)" by (cases x)
  assume inv: "workers_inv pid s"
  then have t: "tokens s = mset (map (\<lambda>k. int k + 1) [0..<n])" and "mpc_ok (mpc s)"
    using Some x by (simp_all add: workers_inv_def working_def)
  then have "n \<le> 9" using Some x by (cases "mpc s") auto
  moreover have "length (mqueue s) \<le> size (tokens s)" by (simp add: tokens_def)
  ultimately show ?thesis unfolding t by simp
next
  case None
  assume inv: "workers_inv pid s"
  then have d: "distinct (mqueue s)"
    and q: "set (mqueue s) \<subseteq> stop_of ` {w. 1 \<le> w \<and> w < stop_phase (mpc s)}" and "mpc_ok (mpc s)"
    using None by (auto simp: workers_inv_def stopping_def)
  have "stop_phase (mpc s) \<le> 4" using \<open>mpc_ok (mpc s)\<close> by (cases "mpc s") auto
  with q have "set (mqueue s) \<subseteq> stop_of ` {1..<4}" by force
  then have "card (set (mqueue s)) \<le> card (stop_of ` {1..<4})" by (intro card_mono) auto
  also have "\<dots> \<le> 3" using card_image_le [of "{1..<4}" stop_of] by simp
  finally show ?thesis using distinct_card [OF d] by simp
qed

lemma worker_can:
  assumes inv: "workers_inv pid s"
    and "(\<exists>m. wk s w = WSend m) \<or> wk s w = WRecv \<and> (\<exists>m \<in> set (mqueue s). mtype m = w)"
  shows "\<exists>t. workers_nxt pid (Worker w) s = Some t"
proof (cases "wk s w = WRecv")
  case True
  with assms(2) have "msgrcv w (mqueue s) \<noteq> None" by (auto simp: msgrcv_None)
  with True show ?thesis by (auto simp: worker_step_def)
next
  case False
  with assms(2) obtain m where "wk s w = WSend m" by auto
  then show ?thesis using msgsnd_fits [OF queue_short [OF inv]] by (simp add: worker_step_def)
qed

text \<open>While the main process waits for a result, some worker has one or a job for it is queued.\<close>

lemma recv_progress:
  assumes inv: "workers_inv pid s" and m: "mpc s = MRecv i"
  shows "\<exists>a t. no_failure a \<and> workers_nxt pid a s = Some t"
proof -
  have w: "working pid 4 9 i s" and "i < 9" using inv m by (simp_all add: workers_inv_def)
  have t: "tokens s = mset (map (\<lambda>k. int k + 1) [0..<9])" and "length (printed s) = i"
    using w by (simp_all add: working_def)
  have "size (tokens s) = 9" unfolding t by simp
  then have "mqueue s \<noteq> [] \<or> (\<exists>w \<in> {1, 2, 3}. held (wk s w) \<noteq> [])"
    using \<open>i < 9\<close> \<open>length (printed s) = i\<close> by (intro disjCI) (auto simp: tokens_def)
  then consider (held) w where "held (wk s w) \<noteq> []" | (queue) x q where "mqueue s = x # q"
    by (cases "mqueue s") auto
  then show ?thesis
  proof cases
    case held
    then have "\<exists>m. wk s w = WSend m" by (cases "wk s w") auto
    then show ?thesis using worker_can [OF inv, of w] no_failure.simps(5) by blast
  next
    case queue
    then obtain k where k: "x = job_of k \<or> x = result_of pid k" using w by (auto simp: working_def)
    show ?thesis
    proof (cases "x = result_of pid k")
      case True
      then have "msgrcv 100 (mqueue s) = Some (x, q)" using queue by simp
      then have "\<exists>t. workers_nxt pid Main s = Some t" using m by (simp add: main_step_def)
      then show ?thesis using no_failure.simps(4) by blast
    next
      case False
      let ?w = "k mod 3 + 1"
      have "mtype x = ?w" using False k by auto
      moreover have "wk s ?w = WRecv \<or> (\<exists>m. wk s ?w = WSend m)"
        using w job_type_range(2,3) [of k] unfolding working_def by blast
      ultimately show ?thesis
        using worker_can [OF inv, of ?w] no_failure.simps(5) queue by (metis list.set_intros(1))
    qed
  qed
qed

lemma reap_progress:
  assumes inv: "workers_inv pid s" and m: "mpc s = MReap"
  shows "\<exists>a t. no_failure a \<and> workers_nxt pid a s = Some t"
proof (cases "\<forall>w \<in> set [1..<WORKERS + 1]. waited (wk s w)")
  case True
  then have "workers_nxt pid Main s = Some (s\<lparr>mpc := MRemove\<rparr>)" using m by (simp add: main_step_def)
  then show ?thesis using no_failure.simps(4) by blast
next
  case False
  then obtain w where w: "1 \<le> w" "w \<le> 3" "\<not> waited (wk s w)" by (auto simp: WORKERS_def)
  have st: "stopping pid 4 s" using inv m by (simp add: workers_inv_def)
  then have "wk s w = WRecv \<or> wk s w = WExit" using w by (auto simp: stopping_def)
  then show ?thesis
  proof
    assume r: "wk s w = WRecv"
    have "set (mqueue s) = stop_of ` {w. 1 \<le> w \<and> w < 4 \<and> wk s w = WRecv}"
      using st by (simp add: stopping_def)
    then have "stop_of w \<in> set (mqueue s)" using r w by simp
    then have "\<exists>m \<in> set (mqueue s). mtype m = w" by (rule bexI [rotated]) simp
    then show ?thesis using worker_can [OF inv, of w] r no_failure.simps(5) by blast
  next
    assume "wk s w = WExit"
    then have "workers_nxt pid (ReapWorker w) s = Some (s\<lparr>wk := (wk s)(w := WReaped)\<rparr>)"
      using m by (simp add: reap_worker_def)
    then show ?thesis using no_failure.simps(6) by blast
  qed
qed

definition workers_done :: "workers_sys \<Rightarrow> bool" where
  "workers_done s \<longleftrightarrow> mpc s = MGone"

lemma workers_progress:
  assumes inv: "workers_inv pid s" and nd: "\<not> workers_done s"
  shows "\<exists>a t. only no_failure (workers_nxt pid) a s = Some t"
proof -
  have "\<exists>a t. no_failure a \<and> workers_nxt pid a s = Some t"
  proof (cases "(\<exists>i. mpc s = MRecv i) \<or> mpc s = MReap")
    case True
    then show ?thesis using recv_progress [OF inv] reap_progress [OF inv] by blast
  next
    case False
    then have "\<exists>t. workers_nxt pid Main s = Some t"
      using nd msgsnd_fits [OF queue_short [OF inv]] inv
      by (cases "mpc s") (auto simp: main_step_def workers_done_def workers_inv_def)
    then show ?thesis using no_failure.simps(4) by blast
  qed
  then show ?thesis by (metis only_def)
qed

definition workers_start :: workers_sys where
  "workers_start = \<lparr>mqueue = [], wk = (\<lambda>w. WNone), mpc = MFork 1, printed = [], qremoved = False\<rparr>"

lemma workers_setup_start: "workers_setup None = Inr workers_start"
  by (simp add: workers_setup_def workers_start_def fork_at_def WORKERS_def)

interpretation work: terminating_system "only no_failure (workers_nxt pid)" workers_start
  "workers_inv pid" workers_msr workers_done for pid
proof unfold_locales
  show "workers_inv pid workers_start"
    by (simp add: workers_start_def workers_inv_def working_def tokens_def)
qed (fact workers_inv_step workers_decreases workers_progress)+

subsection \<open>Properties\<close>

lemma all_results:
  assumes "\<forall>m \<in> set (printed s). \<exists>k<9. m = result_of pid k"
    and "mset (map job_id (printed s)) = mset (map (\<lambda>k. int k + 1) [0..<9])"
  shows "mset (printed s) = mset (map (result_of pid) [0..<9])"
proof -
  let ?f = "\<lambda>i. result_of pid (nat (i - 1))"
  have "map ?f (map job_id (printed s)) = printed s"
    unfolding map_map by (rule map_idI) (use assms(1) in auto)
  then have "mset (printed s) = image_mset ?f (mset (map job_id (printed s)))" by (metis mset_map)
  also have "\<dots> = mset (map (result_of pid) [0..<9])" unfolding assms(2) by (simp add: comp_def image_mset.compositionality)
  finally show ?thesis .
qed

text \<open>
  C15: When the forks and the queue calls of the workers succeed, the program never deadlocks and
  ends within 101 steps of its processes in every interleaving; it has then printed exactly the
  nine lines, one for each job, with the square of the job's value and the worker its type selects,
  in some order, all messages have been taken, and the queue is removed.
\<close>

theorem workers_complete:
  assumes "workers_setup None = Inr s" and "run (workers_nxt pid) as s = Some t"
    and "\<forall>a \<in> set as. no_failure a"
  shows "length as \<le> 101
    \<and> (\<exists>bs u. list_all no_failure bs \<and> run (workers_nxt pid) (as @ bs) s = Some u \<and> mpc u = MGone)
    \<and> (mpc t = MGone \<longrightarrow> mqueue t = [] \<and> qremoved t
         \<and> mset (map result_line (printed t)) = mset (map (\<lambda>k. ''job='' @ fmt_d (int k + 1)
              @ '' value='' @ fmt_d (int k + 2) @ '' square='' @ fmt_d ((int k + 2) * (int k + 2))
              @ '' worker='' @ fmt_d (pid (k mod 3 + 1)) @ [newline]) [0..<9]))"
proof -
  have s: "s = workers_start" using assms(1) by (simp add: workers_setup_start)
  have r: "run (only no_failure (workers_nxt pid)) as workers_start = Some t"
    using assms(2,3) by (simp add: run_only s)
  have "length as \<le> 101"
    using work.bounded [OF r] by (simp add: workers_msr_def workers_start_def queue_rank_def)
  moreover have "\<exists>bs u. list_all no_failure bs \<and> run (workers_nxt pid) (as @ bs) s = Some u \<and> mpc u = MGone"
    using work.completes [OF r] by (auto simp: s workers_done_def dest: run_only_run run_only_list)
  moreover have "mqueue t = [] \<and> qremoved t \<and> mset (printed t) = mset (map (result_of pid) [0..<9])"
    if "mpc t = MGone"
  proof -
    have st: "stopping pid 4 t" using work.inv_reached [OF r] that by (simp add: workers_inv_def)
    have "wk t w \<noteq> WRecv" if "1 \<le> w" "w < 4" for w
      using st \<open>mpc t = MGone\<close> that by (simp add: stopping_def)
    moreover have "set (mqueue t) = stop_of ` {w. 1 \<le> w \<and> w < 4 \<and> wk t w = WRecv}"
      using st by (simp add: stopping_def)
    ultimately have "set (mqueue t) = {}" by auto
    then have "mqueue t = []" by simp
    then show ?thesis
      using st that all_results [of t pid] by (simp add: stopping_def)
  qed
  then have "mpc t = MGone \<longrightarrow> mqueue t = [] \<and> qremoved t
      \<and> mset (map result_line (printed t)) = mset (map result_line (map (result_of pid) [0..<9]))"
    by (metis mset_map)
  ultimately show ?thesis
    by (simp add: comp_def result_line_def result_of_def job_result_def job_of_def WORKERS_def
        image_mset.compositionality)
qed

lemma workers_fork_run:
  "run (workers_nxt pid) [Main] workers_start
     = Some (workers_start\<lparr>wk := (wk workers_start)(1 := WRecv), mpc := MFork 2\<rparr>)"
  by (simp add: workers_start_def main_step_def fork_at_def WORKERS_def)

theorem workers_complete_witness:
  "workers_setup None = Inr workers_start
     \<and> (\<exists>bs u. run (workers_nxt int) ([Main] @ bs) workers_start = Some u \<and> mpc u = MGone)"
proof -
  have "\<forall>a \<in> set [Main]. no_failure a" by simp
  from workers_complete [OF workers_setup_start workers_fork_run this] show ?thesis
    using workers_setup_start by blast
qed

end
