(* ===== verification/QueuePrograms.thy ===== *)
theory QueuePrograms
  imports SysVQueue
begin

text \<open>
  The other programs of \<open>MessageQueues/\<close>: a request and its reply over one System V queue
  (\<open>sysv_request_reply.c\<close>), the state of a queue (\<open>sysv_queue_control.c\<close>), and the POSIX queues with
  a notification (\<open>posix_mq_notify_signal.c\<close>) and with a deadline (\<open>posix_mq_timed_receive.c\<close>).
\<close>

subsection \<open>Request and reply\<close>

datatype spc = SRecv | SSend msg | SExit | SReaped | SAbsent | SDied halt

datatype rpc = QSend | QRecv | QPrint msg | QWait | QRemove | QGone | QDied halt

record reqrep =
  rqueue :: "msg list"
  spc :: spc
  rpc :: rpc
  rrout :: string
  rremoved :: bool

text \<open>
  \<open>msgrcv\<close> into a structure of a given size: a longer message stays in the queue and the call fails
  with an error the program does not test, leaving the structure uninitialised.
\<close>

datatype rcv = Received msg "msg list" | TooBig | Empty

definition msgrcv_sized :: "nat \<Rightarrow> nat \<Rightarrow> msg list \<Rightarrow> rcv" where
  "msgrcv_sized sz t q =
     (case msgrcv t q of
        None \<Rightarrow> Empty
      | Some (m, r) \<Rightarrow> if sz < msize m then TooBig else Received m r)"

definition server_reply :: "msg \<Rightarrow> msg" where
  "server_reply req = Reply_msg (reply_type req) (arg_a req + arg_b req) (arg_a req * arg_b req)"

definition reqrep_server :: "reqrep \<Rightarrow> reqrep option" where
  "reqrep_server s =
     (case spc s of
        SRecv \<Rightarrow>
          (case msgrcv_sized 16 1 (rqueue s) of
             Received m q \<Rightarrow> Some (s\<lparr>rqueue := q, spc := SSend (server_reply m)\<rparr>)
           | TooBig \<Rightarrow> Some (s\<lparr>spc := SDied (Undef ''uninitialised request'')\<rparr>)
           | Empty \<Rightarrow> None)
      | SSend m \<Rightarrow>
          (case msgsnd m (rqueue s) of
             None \<Rightarrow> None
           | Some q \<Rightarrow> Some (s\<lparr>rqueue := q, spc := SExit\<rparr>))
      | _ \<Rightarrow> None)"

definition reqrep_line :: "msg \<Rightarrow> nat \<Rightarrow> string" where
  "reqrep_line m pid = ''sum='' @ fmt_d (rsum m) @ '' product='' @ fmt_d (rproduct m)
     @ '' reply-type='' @ fmt_d (int pid) @ [newline]"

definition reqrep_client :: "nat \<Rightarrow> reqrep \<Rightarrow> reqrep option" where
  "reqrep_client pid s =
     (case rpc s of
        QSend \<Rightarrow>
          (case msgsnd (Request_msg 1 pid 21 34) (rqueue s) of
             None \<Rightarrow> None
           | Some q \<Rightarrow> Some (s\<lparr>rqueue := q, rpc := QRecv\<rparr>))
      | QRecv \<Rightarrow>
          (case msgrcv_sized 8 pid (rqueue s) of
             Received m q \<Rightarrow> Some (s\<lparr>rqueue := q, rpc := QPrint m\<rparr>)
           | TooBig \<Rightarrow> Some (s\<lparr>rpc := QDied (Undef ''uninitialised reply'')\<rparr>)
           | Empty \<Rightarrow> None)
      | QPrint m \<Rightarrow> Some (s\<lparr>rrout := rrout s @ reqrep_line m pid, rpc := QWait\<rparr>)
      | QWait \<Rightarrow>
          (case spc s of
             SExit \<Rightarrow> Some (s\<lparr>spc := SReaped, rpc := QRemove\<rparr>)
           | SDied h \<Rightarrow> Some (s\<lparr>spc := SReaped, rpc := QRemove\<rparr>)
           | SAbsent \<Rightarrow> Some (s\<lparr>rpc := QDied (die_errno ''waitpid'' ECHILD)\<rparr>)
           | _ \<Rightarrow> None)
      | QRemove \<Rightarrow> Some (s\<lparr>rremoved := True, rpc := QGone\<rparr>)
      | _ \<Rightarrow> None)"

definition reqrep_nxt :: "nat \<Rightarrow> bool \<Rightarrow> reqrep \<Rightarrow> reqrep option" where
  "reqrep_nxt pid client s = (if client then reqrep_client pid s else reqrep_server s)"

definition reqrep_setup :: "errno option \<Rightarrow> bool \<Rightarrow> reqrep res" where
  "reqrep_setup msgget_res forked =
     (case msgget_res of
        Some e \<Rightarrow> Inl (die_errno ''msgget'' e)
      | None \<Rightarrow> Inr \<lparr>rqueue = [], spc = (if forked then SRecv else SAbsent), rpc = QSend, rrout = [],
                     rremoved = False\<rparr>)"

text \<open>
  The run of the two processes when the process number is not 1, the type of the request: at every
  moment exactly one of them can move, so the run is a sequence of eight states.
\<close>

definition the_request :: "nat \<Rightarrow> msg" where
  "the_request pid = Request_msg 1 pid 21 34"

definition the_reply :: "nat \<Rightarrow> msg" where
  "the_reply pid = Reply_msg pid 55 714"

definition reqrep_at :: "nat \<Rightarrow> nat \<Rightarrow> reqrep" where
  "reqrep_at pid k =
     \<lparr>rqueue = (if k = 1 then [the_request pid] else if k = 3 then [the_reply pid] else []),
      spc = (if k \<le> 1 then SRecv else if k = 2 then SSend (the_reply pid)
             else if k \<le> 5 then SExit else SReaped),
      rpc = [QSend, QRecv, QRecv, QRecv, QPrint (the_reply pid), QWait, QRemove, QGone] ! k,
      rrout = (if k \<le> 4 then [] else reqrep_line (the_reply pid) pid),
      rremoved = (7 \<le> k)\<rparr>"

lemmas reqrep_defs = reqrep_nxt_def reqrep_client_def reqrep_server_def msgrcv_sized_def the_request_def
  the_reply_def server_reply_def msgsnd_def MSGMNB_def reqrep_at_def

lemma reqrep_chain:
  assumes "pid \<noteq> 1" and "k < 8"
  shows "reqrep_nxt pid c (reqrep_at pid k)
    = (if k < 7 \<and> c = (k \<notin> {1, 2}) then Some (reqrep_at pid (Suc k)) else None)"
proof -
  have "k = 0 \<or> k = 1 \<or> k = 2 \<or> k = 3 \<or> k = 4 \<or> k = 5 \<or> k = 6 \<or> k = 7"
    using assms(2) by linarith
  then show ?thesis
    using assms(1) by (elim disjE; cases c) (simp_all add: reqrep_defs)
qed

interpretation exchange: linear_system "reqrep_nxt (n + 2)" "reqrep_at (n + 2)" "\<lambda>k. k \<notin> {1, 2}" 7
  for n :: nat
proof unfold_locales
  show "reqrep_nxt (n + 2) a (reqrep_at (n + 2) k)
      = (if a = (k \<notin> {1, 2}) then Some (reqrep_at (n + 2) (Suc k)) else None)" if "k < 7" for k a
    using reqrep_chain [of "n + 2" k a] that by simp
  show "reqrep_nxt (n + 2) a (reqrep_at (n + 2) 7) = None" for a
    using reqrep_chain [of "n + 2" 7 a] by simp
qed

lemma reqrep_setup_at: "reqrep_setup None True = Inr (reqrep_at pid 0)"
  by (simp add: reqrep_setup_def reqrep_at_def)

subsection \<open>The state of a queue\<close>

definition queued_msg :: "nat \<Rightarrow> msg" where
  "queued_msg i = Text_msg 10 (fst (snprintf 32 (''queued-'' @ fmt_d (int i + 1))))"

fun send_all :: "msg list \<Rightarrow> msg list \<Rightarrow> msg list option" where
  "send_all [] q = Some q"
| "send_all (m # ms) q = (case msgsnd m q of None \<Rightarrow> None | Some r \<Rightarrow> send_all ms r)"

text \<open>
  The whole program: \<open>None\<close> when a send blocks. The kernel's \<open>IPC_STAT\<close> reports the number of messages
  and the limit of the queue. The second value is whether the queue still exists at the end.
\<close>

definition queue_control :: "errno option \<Rightarrow> errno option \<Rightarrow> int \<Rightarrow> (string res \<times> bool) option" where
  "queue_control msgget_res stat_res qid =
     (case msgget_res of
        Some e \<Rightarrow> Some (Inl (die_errno ''msgget'' e), False)
      | None \<Rightarrow>
          (case send_all (map queued_msg [0..<4]) [] of
             None \<Rightarrow> None
           | Some q \<Rightarrow>
               (case stat_res of
                  Some e \<Rightarrow> Some (Inl (die_errno ''msgctl IPC_STAT'' e), True)
                | None \<Rightarrow>
                    Some (Inr (''queue-id='' @ fmt_d qid @ '' messages='' @ fmt_d (int (length q))
                               @ '' max-bytes='' @ fmt_d (int MSGMNB) @ [newline]), False))))"

subsection \<open>POSIX queues\<close>


fun mq_insert :: "nat \<Rightarrow> string \<Rightarrow> (nat \<times> string) list \<Rightarrow> (nat \<times> string) list" where
  "mq_insert prio txt [] = [(prio, txt)]"
| "mq_insert prio txt ((p, x) # q) = (if p < prio then (prio, txt) # (p, x) # q else (p, x) # mq_insert prio txt q)"






lemma mq_insert_nonempty [simp]: "mq_insert prio txt q \<noteq> []"
  by (cases q) (auto split: if_splits)



lemma set_mq_insert [simp]: "set (mq_insert prio txt q) = insert (prio, txt) (set q)"
  by (induction prio "txt" q rule: mq_insert.induct) auto



lemma fmt_55_714: "fmt_d 55 = ''55''" "fmt_d 714 = ''714''"
  by (simp_all add: fmt_simps)

subsection \<open>Properties\<close>

text \<open>
  C21: When its process number is not 1 the client always gets the answer to its own request: every
  schedule is part of the one run of the two processes, which ends after seven steps with the sum
  55, the product 714 and the process number printed and the queue removed.
\<close>

theorem reqrep_answers:
  assumes "reqrep_setup None True = Inr s" and "run (reqrep_nxt (n + 2)) as s = Some t"
  shows "length as \<le> 7
    \<and> (\<exists>bs u. run (reqrep_nxt (n + 2)) (as @ bs) s = Some u \<and> rpc u = QGone \<and> rremoved u
          \<and> rqueue u = [] \<and> spc u = SReaped
          \<and> rrout u = ''sum=55 product=714 reply-type='' @ fmt_d (int (n + 2)) @ [newline])"
proof -
  have s: "s = reqrep_at (n + 2) 0" using assms(1) reqrep_setup_at by simp
  obtain bs where "run (reqrep_nxt (n + 2)) (as @ bs) s = Some (reqrep_at (n + 2) 7)"
    using exchange.run_ends [of n as t] assms(2) s by blast
  moreover have "rrout (reqrep_at (n + 2) 7) = ''sum=55 product=714 reply-type='' @ fmt_d (int (n + 2)) @ [newline]"
    and "rpc (reqrep_at (n + 2) 7) = QGone" "rremoved (reqrep_at (n + 2) 7)" "rqueue (reqrep_at (n + 2) 7) = []"
      "spc (reqrep_at (n + 2) 7) = SReaped"
    by (simp_all add: reqrep_at_def reqrep_line_def the_reply_def fmt_55_714)
  ultimately show ?thesis using exchange.run_state [of n as t] assms(2) s by blast
qed

theorem reqrep_answers_witness:
  "reqrep_setup None True = Inr (reqrep_at 5 0)
     \<and> (\<exists>bs u. run (reqrep_nxt 5) ([True] @ bs) (reqrep_at 5 0) = Some u
           \<and> rrout u = ''sum=55 product=714 reply-type=5'' @ [newline])"
proof -
  have e: "(3::nat) + 2 = 5" by simp
  have "run (reqrep_nxt (3 + 2)) [True] (reqrep_at 5 0) = Some (reqrep_at 5 1)"
    unfolding e using reqrep_chain [of 5 0 True] by simp
  from reqrep_answers [OF reqrep_setup_at this] show ?thesis
    unfolding e using reqrep_setup_at by (auto simp: fmt_simps)
qed

text \<open>
  A client with process number 1, as the first process of a container has, asks for its reply
  under the type of its own request: when it runs before the server it finds its request, which is
  too long for a reply, and goes on with an uninitialised structure.
\<close>

theorem reqrep_type_collision:
  "\<exists>s t. reqrep_setup None True = Inr s \<and> run (reqrep_nxt 1) [True, True] s = Some t
     \<and> rpc t = QDied (Undef ''uninitialised reply'') \<and> rqueue t = [Request_msg 1 1 21 34]"
  by (simp add: reqrep_setup_def reqrep_nxt_def reqrep_client_def msgsnd_def MSGMNB_def msgrcv_sized_def)

text \<open>
  The four messages fit the queue, and the line printed gives their number and the limit of
  the queue, 16384 bytes, not the number of bytes queued; the queue is removed.
\<close>

theorem queue_control_line:
  "queue_control None None qid
     = Some (Inr (''queue-id='' @ fmt_d qid @ '' messages=4 max-bytes=16384'' @ [newline]), False)"
proof -
  have "[0..<4] = [0, 1, 2, 3 :: nat]" by (simp add: upt_rec)
  then show ?thesis
    by (simp add: queue_control_def msgsnd_def MSGMNB_def queued_msg_def fmt_simps)
qed




end
