(* ===== verification/Signals.thy ===== *)
theory Signals
  imports Common
begin

text \<open>
  The programs of \<open>Signals/\<close>: pending and blocked signals of a process, the queue of realtime
  signals, payloads, waiting with \<open>sigsuspend\<close>, the restart of an interrupted \<open>read\<close>, recovery from
  \<open>SIGSEGV\<close>, and the supervisor that learns from \<open>SIGCHLD\<close> when its worker has exited.
\<close>

subsection \<open>Pending and blocked signals\<close>

text \<open>
  A signal with its \<open>si_value\<close>. Of a standard signal (number below 32) at most one instance is pending;
  instances of a realtime signal queue.
\<close>

record sigs =
  blocked :: "nat list"
  pending :: "(nat \<times> int) list"

definition SIGUSR1 :: nat where
  "SIGUSR1 = 10"

definition SIGSEGV :: nat where
  "SIGSEGV = 11"

definition SIGALRM :: nat where
  "SIGALRM = 14"


definition sig_send :: "nat \<Rightarrow> int \<Rightarrow> sigs \<Rightarrow> sigs" where
  "sig_send n v s =
     (if n < 32 \<and> n \<in> fst ` set (pending s) then s else s\<lparr>pending := pending s @ [(n, v)]\<rparr>)"

definition sig_block :: "nat \<Rightarrow> sigs \<Rightarrow> sigs" where
  "sig_block n s = s\<lparr>blocked := n # blocked s\<rparr>"

definition sig_unblock :: "nat \<Rightarrow> sigs \<Rightarrow> sigs" where
  "sig_unblock n s = s\<lparr>blocked := filter (\<lambda>m. m \<noteq> n) (blocked s)\<rparr>"

text \<open>The values of the pending instances of a signal, oldest first.\<close>

definition sig_values :: "nat \<Rightarrow> sigs \<Rightarrow> int list" where
  "sig_values n s = map snd (filter (\<lambda>p. fst p = n) (pending s))"

text \<open>
  Delivery to a handler, which changes a variable of type \<open>'x\<close>: the signal is blocked while its
  handler runs, so that the instances are handled one after the other, oldest first.
\<close>

definition sig_handle :: "nat \<Rightarrow> (int \<Rightarrow> 'x \<Rightarrow> 'x) \<Rightarrow> sigs \<Rightarrow> 'x \<Rightarrow> sigs \<times> 'x" where
  "sig_handle n h s x =
     (if n \<in> set (blocked s) then (s, x)
      else (s\<lparr>pending := filter (\<lambda>p. fst p \<noteq> n) (pending s)\<rparr>, fold h (sig_values n s) x))"

text \<open>Between two instructions of a process no pending signal is unblocked.\<close>

definition settled :: "sigs \<Rightarrow> bool" where
  "settled s \<longleftrightarrow> (\<forall>p \<in> set (pending s). fst p \<in> set (blocked s))"

lemmas sig_defs = sig_send_def sig_block_def sig_unblock_def sig_values_def sig_handle_def

subsection \<open>signal\_mask\_pending.c\<close>

definition set_delivered :: "int \<Rightarrow> int \<Rightarrow> int" where
  "set_delivered v x = 1"

definition mask_pending_main :: "sigs \<Rightarrow> errno option \<Rightarrow> errno option \<Rightarrow> (string \<times> sigs) res" where
  "mask_pending_main s block_res unblock_res =
     (case block_res of
        Some e \<Rightarrow> Inl (die_errno ''sigprocmask block'' e)
      | None \<Rightarrow>
          (case sig_handle SIGUSR1 set_delivered (sig_send SIGUSR1 0 (sig_block SIGUSR1 s)) 0 of
             (s1, d1) \<Rightarrow>
               let line1 = ''pending-before-unblock='' @ fmt_d (if SIGUSR1 \<in> fst ` set (pending s1) then 1 else 0)
                     @ '' delivered='' @ fmt_d d1 @ [newline]
               in (case unblock_res of
                     Some e \<Rightarrow> Inl (die_errno ''sigprocmask unblock'' e)
                   | None \<Rightarrow>
                       (case sig_handle SIGUSR1 set_delivered (sig_unblock SIGUSR1 s1) d1 of
                          (s2, d2) \<Rightarrow>
                            Inr (line1 @ ''delivered-after-unblock='' @ fmt_d d2 @ [newline], s2)))))"

subsection \<open>realtime\_signal\_order.c\<close>




subsection \<open>sigqueue\_payload.c\<close>

text \<open>The two variables of the handler as one optional value.\<close>

definition on_payload :: "int \<Rightarrow> int option \<Rightarrow> int option" where
  "on_payload v got = Some v"

fun pause_for_payload :: "int list \<Rightarrow> sigs \<Rightarrow> int option \<Rightarrow> int option" where
  "pause_for_payload later s (Some v) = Some v"
| "pause_for_payload [] s None = None"
| "pause_for_payload (v # later) s None =
     (case sig_handle SIGUSR1 on_payload (sig_send SIGUSR1 v s) None of
        (s', got) \<Rightarrow> pause_for_payload later s' got)"

definition payload_main :: "sigs \<Rightarrow> errno option \<Rightarrow> errno option \<Rightarrow> int list \<Rightarrow> string res option" where
  "payload_main s sigaction_res sigqueue_res later =
     (case sigaction_res of
        Some e \<Rightarrow> Some (Inl (die_errno ''sigaction'' e))
      | None \<Rightarrow>
          (case sigqueue_res of
             Some e \<Rightarrow> Some (Inl (die_errno ''sigqueue'' e))
           | None \<Rightarrow>
               (case sig_handle SIGUSR1 on_payload (sig_send SIGUSR1 4096 s) None of
                  (s', got) \<Rightarrow>
                    map_option (\<lambda>v. Inr (''sigqueue payload='' @ fmt_d v @ [newline]))
                      (pause_for_payload later s' got))))"

subsection \<open>altstack\_segv\_recovery.c\<close>

text \<open>
  \<open>sigsetjmp\<close> saves the mask and the handler leaves by \<open>siglongjmp\<close>, which restores it: \<open>SIGSEGV\<close> does not stay blocked.
  When the process has inherited a mask that blocks \<open>SIGSEGV\<close>, \<open>raise\<close> returns and nothing is printed.
\<close>

datatype stack = Main_stack | Alternate_stack

text \<open>A handler runs on the alternate stack when one is installed and the handler was set with \<open>SA_ONSTACK\<close>.\<close>

definition handler_stack :: "bool \<Rightarrow> bool \<Rightarrow> stack" where
  "handler_stack installed onstack = (if installed \<and> onstack then Alternate_stack else Main_stack)"

text \<open>The result is the output, the signals, and the stack on which the handler has run, if it has.\<close>

definition altstack_main ::
    "sigs \<Rightarrow> bool \<Rightarrow> errno option \<Rightarrow> errno option \<Rightarrow> (string \<times> sigs \<times> stack option) res" where
  "altstack_main s malloc_ok sigaltstack_res sigaction_res =
     (if \<not> malloc_ok then Inl (die ''malloc altstack'')
      else
        (case sigaltstack_res of
           Some e \<Rightarrow> Inl (die_errno ''sigaltstack'' e)
         | None \<Rightarrow>
             (case sigaction_res of
                Some e \<Rightarrow> Inl (die_errno ''sigaction'' e)
              | None \<Rightarrow>
                  let saved = blocked s;
                      raised = sig_send SIGSEGV 0 s
                  in if SIGSEGV \<in> set (blocked raised) then Inr ([], raised, None)
                     else
                       (let handler = sig_block SIGSEGV
                              (raised\<lparr>pending := filter (\<lambda>p. fst p \<noteq> SIGSEGV) (pending raised)\<rparr>)
                        in Inr (''SIGSEGV handled on alternate signal stack'' @ [newline],
                                handler\<lparr>blocked := saved\<rparr>, Some (handler_stack True True))))))"

subsection \<open>sigsuspend\_wait.c\<close>

text \<open>
  The parent blocks \<open>SIGUSR1\<close> before it forks. \<open>sigsuspend\<close> replaces the mask by the empty one and waits
  in one step; it returns after the handler has run, with the old mask.
\<close>

datatype susp_pc = SLoop | SSuspended | SPrint | SReap | SDone
datatype killer_pc = KKill | KExit | KGone

record susp =
  ssig :: sigs
  sready :: int
  sparent :: susp_pc
  schild :: killer_pc
  sout :: string

definition susp_line :: string where
  "susp_line = ''sigsuspend observed SIGUSR1 atomically'' @ [newline]"

definition set_ready :: "int \<Rightarrow> int \<Rightarrow> int" where
  "set_ready v ready = 1"

definition susp_parent :: "susp \<Rightarrow> susp option" where
  "susp_parent s =
     (case sparent s of
        SLoop \<Rightarrow> Some (s\<lparr>sparent := (if sready s = 0 then SSuspended else SPrint)\<rparr>)
      | SSuspended \<Rightarrow>
          (if SIGUSR1 \<in> fst ` set (pending (ssig s)) then
             (case sig_handle SIGUSR1 set_ready ((ssig s)\<lparr>blocked := []\<rparr>) (sready s) of
                (sg, r) \<Rightarrow> Some (s\<lparr>ssig := sg\<lparr>blocked := blocked (ssig s)\<rparr>, sready := r, sparent := SLoop\<rparr>))
           else None)
      | SPrint \<Rightarrow> Some (s\<lparr>sout := sout s @ susp_line, sparent := SReap\<rparr>)
      | SReap \<Rightarrow> if schild s = KGone then Some (s\<lparr>sparent := SDone\<rparr>) else None
      | SDone \<Rightarrow> None)"

definition susp_child :: "susp \<Rightarrow> susp option" where
  "susp_child s =
     (case schild s of
        KKill \<Rightarrow> Some (s\<lparr>ssig := sig_send SIGUSR1 0 (ssig s), schild := KExit\<rparr>)
      | KExit \<Rightarrow> Some (s\<lparr>schild := KGone\<rparr>)
      | KGone \<Rightarrow> None)"

definition susp_nxt :: "bool \<Rightarrow> susp \<Rightarrow> susp option" where
  "susp_nxt parent s = (if parent then susp_parent s else susp_child s)"

text \<open>The result of \<open>fork\<close> is compared with 0 only: after a failure the parent goes on without a child.\<close>

definition susp_setup :: "bool \<Rightarrow> susp" where
  "susp_setup forked =
     \<lparr>ssig = sig_block SIGUSR1 \<lparr>blocked = [], pending = []\<rparr>, sready = 0, sparent = SLoop,
      schild = (if forked then KKill else KGone), sout = []\<rparr>"

definition susp_ok :: "susp \<Rightarrow> bool" where
  "susp_ok s \<longleftrightarrow>
     SIGUSR1 \<in> set (blocked (ssig s))
     \<and> (idle susp_nxt [True, False] s \<longrightarrow>
          sparent s = SDone \<and> schild s = KGone \<and> sout s = susp_line)"

definition susp_hangs :: "susp \<Rightarrow> bool" where
  "susp_hangs s \<longleftrightarrow> sout s = [] \<and> (idle susp_nxt [True, False] s \<longrightarrow> sparent s = SSuspended)"

interpretation suspend: explored_system susp_nxt "[True, False]" "susp_setup True" susp_ok 10
proof unfold_locales
  show "explore susp_nxt [True, False] susp_ok 10 [susp_setup True]" by code_simp
qed auto

interpretation suspend_alone: explored_system susp_nxt "[True, False]" "susp_setup False" susp_hangs 10
proof unfold_locales
  show "explore susp_nxt [True, False] susp_hangs 10 [susp_setup False]" by code_simp
qed auto

subsection \<open>sigaction\_restart\_demo.c\<close>

text \<open>
  A \<open>read\<close> that waits for data is interrupted by \<open>SIGUSR1\<close>; the handler is installed with
  \<open>SA_RESTART\<close>, so that the kernel starts the call again. A signal that is pending when a call
  returns is delivered before the program goes on.
\<close>

datatype rd_pc = RdRead | RdPrint | RdReap | RdDone | RdDied halt
datatype rd_child_pc = CKill | CWrite | CExit | CGone

record restart =
  rsig :: sigs
  handled :: int
  rpipe :: string
  rbuffer :: string
  rparent :: rd_pc
  rchild :: rd_child_pc
  rout :: string

definition resumed_text :: string where
  "resumed_text = ''read resumed after signal'' @ [newline]"

definition set_handled :: "int \<Rightarrow> int \<Rightarrow> int" where
  "set_handled v h = 1"

text \<open>\<open>fault\<close> is an error of the \<open>read\<close>.\<close>

definition restart_parent :: "errno option \<Rightarrow> restart \<Rightarrow> restart option" where
  "restart_parent fault s =
     (case rparent s of
        RdRead \<Rightarrow>
          (case sig_handle SIGUSR1 set_handled (rsig s) (handled s) of
             (sg, h) \<Rightarrow>
               (case fault of
                  Some e \<Rightarrow> Some (s\<lparr>rsig := sg, handled := h, rparent := RdDied (die_errno ''read'' e)\<rparr>)
                | None \<Rightarrow>
                    if rpipe s \<noteq> [] then
                      Some (s\<lparr>rsig := sg, handled := h, rbuffer := take 63 (rpipe s), rpipe := drop 63 (rpipe s),
                              rparent := RdPrint\<rparr>)
                    else if sg \<noteq> rsig s then Some (s\<lparr>rsig := sg, handled := h\<rparr>)
                    else None))
      | RdPrint \<Rightarrow>
          Some (s\<lparr>rout := rout s @ ''handled='' @ fmt_d (handled s) @ '' '' @ rbuffer s, rparent := RdReap\<rparr>)
      | RdReap \<Rightarrow> if rchild s = CGone then Some (s\<lparr>rparent := RdDone\<rparr>) else None
      | RdDone \<Rightarrow> None
      | RdDied h \<Rightarrow> None)"

text \<open>The 26 bytes are fewer than \<open>PIPE_BUF\<close>, so one \<open>write\<close> takes them all.\<close>

definition restart_child :: "restart \<Rightarrow> restart option" where
  "restart_child s =
     (case rchild s of
        CKill \<Rightarrow> Some (s\<lparr>rsig := sig_send SIGUSR1 0 (rsig s), rchild := CWrite\<rparr>)
      | CWrite \<Rightarrow> Some (s\<lparr>rpipe := rpipe s @ take 26 resumed_text, rchild := CExit\<rparr>)
      | CExit \<Rightarrow> Some (s\<lparr>rchild := CGone\<rparr>)
      | CGone \<Rightarrow> None)"

definition restart_nxt :: "errno option \<Rightarrow> bool \<Rightarrow> restart \<Rightarrow> restart option" where
  "restart_nxt fault parent s = (if parent then restart_parent fault s else restart_child s)"

definition restart_setup :: "errno option \<Rightarrow> errno option \<Rightarrow> bool \<Rightarrow> restart res" where
  "restart_setup pipe_res sigaction_res forked =
     (case pipe_res of
        Some e \<Rightarrow> Inl (die_errno ''pipe'' e)
      | None \<Rightarrow>
          (case sigaction_res of
             Some e \<Rightarrow> Inl (die_errno ''sigaction'' e)
           | None \<Rightarrow>
               Inr \<lparr>rsig = \<lparr>blocked = [], pending = []\<rparr>, handled = 0, rpipe = [], rbuffer = [],
                    rparent = RdRead, rchild = (if forked then CKill else CGone), rout = []\<rparr>))"

definition restart_start :: "bool \<Rightarrow> restart" where
  "restart_start forked =
     \<lparr>rsig = \<lparr>blocked = [], pending = []\<rparr>, handled = 0, rpipe = [], rbuffer = [],
      rparent = RdRead, rchild = (if forked then CKill else CGone), rout = []\<rparr>"

definition restart_line :: string where
  "restart_line = ''handled=1 read resumed after signal'' @ [newline]"

definition restart_ok :: "restart \<Rightarrow> bool" where
  "restart_ok s \<longleftrightarrow>
     (rout s = [] \<or> rout s = restart_line)
     \<and> (idle (restart_nxt None) [True, False] s \<longrightarrow> rparent s = RdDone \<and> rout s = restart_line)"

interpretation restarted: explored_system "restart_nxt None" "[True, False]" "restart_start True" restart_ok 10
proof unfold_locales
  show "explore (restart_nxt None) [True, False] restart_ok 10 [restart_start True]" by code_simp
qed auto

subsection \<open>Properties\<close>






lemma settled_values: "settled s \<Longrightarrow> n \<notin> set (blocked s) \<Longrightarrow> sig_values n s = []"
  by (auto simp: settled_def sig_values_def filter_empty_conv)

lemma settled_not_pending: "settled s \<Longrightarrow> n \<notin> set (blocked s) \<Longrightarrow> n \<notin> fst ` set (pending s)"
  by (auto simp: settled_def)

text \<open>A standard signal sent to the process itself: at once to the handler, or kept when blocked.\<close>

lemma sig_handle_blocked: "n \<in> set (blocked s) \<Longrightarrow> sig_handle n h s x = (s, x)"
  by (simp add: sig_handle_def)

lemma sig_handle_sent:
  assumes "settled s" and "n \<notin> set (blocked s)"
  shows "sig_handle n h (sig_send n v s) x = (s, h v x)"
proof -
  have "filter (\<lambda>p. fst p \<noteq> n) (pending s) = pending s" "filter (\<lambda>p. fst p = n) (pending s) = []"
    using settled_not_pending [OF assms] by (auto simp: filter_id_conv filter_empty_conv)
  then show ?thesis
    using assms(2) settled_not_pending [OF assms] by (simp add: sig_handle_def sig_send_def sig_values_def)
qed

lemma payload_waits: "SIGUSR1 \<in> set (blocked s) \<Longrightarrow> pause_for_payload later s None = None"
proof (induction later arbitrary: s)
  case (Cons v later)
  have "SIGUSR1 \<in> set (blocked (sig_send SIGUSR1 v s))" using Cons.prems by (simp add: sig_send_def)
  then show ?case using Cons.IH by (simp add: sig_handle_blocked)
qed simp

lemma fold_set_delivered: "fold set_delivered vs d = (if vs = [] then d else 1)"
  by (induction vs arbitrary: d) (auto simp: set_delivered_def)

lemma sig_sent_pending: "n \<in> fst ` set (pending (sig_send n v s))"
  by (auto simp: sig_send_def)

lemma mask_pending_lines:
  "mask_pending_main s None None =
     Inr (''pending-before-unblock=1 delivered=0'' @ [newline] @ ''delivered-after-unblock=1'' @ [newline],
          \<lparr>blocked = filter (\<lambda>n. n \<noteq> SIGUSR1) (blocked s), pending = filter (\<lambda>p. fst p \<noteq> SIGUSR1) (pending s)\<rparr>)"
proof -
  let ?s = "sig_send SIGUSR1 0 (sig_block SIGUSR1 s)"
  have "SIGUSR1 \<in> set (blocked ?s)" by (simp add: sig_send_def sig_block_def)
  then have one: "sig_handle SIGUSR1 set_delivered ?s 0 = (?s, 0)" by (rule sig_handle_blocked)
  have "sig_values SIGUSR1 (sig_unblock SIGUSR1 ?s) \<noteq> []"
    using sig_sent_pending [of SIGUSR1 0 "sig_block SIGUSR1 s"] by (force simp: sig_values_def sig_unblock_def filter_empty_conv)
  then have "fold set_delivered (sig_values SIGUSR1 (sig_unblock SIGUSR1 ?s)) 0 = 1"
    by (simp add: fold_set_delivered)
  then have two: "sig_handle SIGUSR1 set_delivered (sig_unblock SIGUSR1 ?s) 0 =
      (\<lparr>blocked = filter (\<lambda>n. n \<noteq> SIGUSR1) (blocked s), pending = filter (\<lambda>p. fst p \<noteq> SIGUSR1) (pending s)\<rparr>, 1)"
    by (simp add: sig_handle_def sig_unblock_def sig_send_def sig_block_def)
  show ?thesis
    using sig_sent_pending [of SIGUSR1 0 "sig_block SIGUSR1 s"]
    by (simp add: mask_pending_main_def one two fmt_simps)
qed

lemma payload_outcome:
  assumes "settled s"
  shows "payload_main s None None later =
    (if SIGUSR1 \<in> set (blocked s) then None else Some (Inr (''sigqueue payload=4096'' @ [newline])))"
proof (cases "SIGUSR1 \<in> set (blocked s)")
  case True
  then have "SIGUSR1 \<in> set (blocked (sig_send SIGUSR1 4096 s))" by (simp add: sig_send_def)
  then show ?thesis using True by (simp add: payload_main_def sig_handle_blocked payload_waits)
next
  case False
  then show ?thesis
    by (simp add: payload_main_def sig_handle_sent [OF assms False] on_payload_def fmt_simps)
qed

lemma altstack_outcome:
  assumes "settled s"
  shows "altstack_main s True None None =
    (if SIGSEGV \<in> set (blocked s) then Inr ([], sig_send SIGSEGV 0 s, None)
     else Inr (''SIGSEGV handled on alternate signal stack'' @ [newline], s, Some Alternate_stack))"
proof -
  have "filter (\<lambda>p. fst p \<noteq> SIGSEGV) (pending s) = pending s" if "SIGSEGV \<notin> set (blocked s)"
    using settled_not_pending [OF assms that] by (force simp: filter_id_conv)
  then show ?thesis
    using settled_not_pending [OF assms]
    by (auto simp: altstack_main_def Let_def sig_send_def sig_block_def handler_stack_def)
qed



text \<open>
  C25: A signal that a process sends to itself is handled before the call returns exactly when it is not
  blocked. From a settled state: \<open>signal_mask_pending\<close> sees the signal pending and not delivered before it
  unblocks it, and delivered after; \<open>sigqueue_payload\<close> prints the payload, or waits for ever whatever
  others send when it has inherited a mask that blocks the signal; \<open>altstack_segv_recovery\<close> runs its handler
  on the alternate stack, prints its line and has its old mask back after the jump out of the handler, or prints nothing under such a mask.
\<close>

theorem self_sent_signals:
  assumes "settled s"
  shows "mask_pending_main s None None =
      Inr (''pending-before-unblock=1 delivered=0'' @ [newline] @ ''delivered-after-unblock=1'' @ [newline],
           \<lparr>blocked = filter (\<lambda>n. n \<noteq> SIGUSR1) (blocked s), pending = filter (\<lambda>p. fst p \<noteq> SIGUSR1) (pending s)\<rparr>)
    \<and> payload_main s None None later =
      (if SIGUSR1 \<in> set (blocked s) then None else Some (Inr (''sigqueue payload=4096'' @ [newline])))
    \<and> altstack_main s True None None =
      (if SIGSEGV \<in> set (blocked s) then Inr ([], sig_send SIGSEGV 0 s, None)
       else Inr (''SIGSEGV handled on alternate signal stack'' @ [newline], s, Some Alternate_stack))"
  using mask_pending_lines payload_outcome [OF assms] altstack_outcome [OF assms] by blast

theorem self_sent_signals_witness:
  "payload_main \<lparr>blocked = [], pending = []\<rparr> None None [] = Some (Inr (''sigqueue payload=4096'' @ [newline]))"
  using self_sent_signals [of "\<lparr>blocked = [], pending = []\<rparr>" "[]"] by (simp add: settled_def)

text \<open>
  C26: The parent does not lose the signal, whenever the child sends it: every schedule has fewer
  than ten steps and leads to the end of both with the line printed, and outside \<open>sigsuspend\<close> the signal stays
  blocked. When \<open>fork\<close> fails, which the program does not test, it waits in \<open>sigsuspend\<close> for ever.
\<close>

theorem suspend_wakes:
  assumes "run susp_nxt as (susp_setup forked) = Some t"
  shows "length as < 10
    \<and> (\<exists>bs u. run susp_nxt (as @ bs) (susp_setup forked) = Some u \<and> stuck susp_nxt u
         \<and> (if forked then sparent u = SDone \<and> schild u = KGone \<and> sout u = susp_line
            else sparent u = SSuspended \<and> sout u = []))
    \<and> (forked \<longrightarrow> SIGUSR1 \<in> set (blocked (ssig t)))"
proof (cases forked)
  case True
  then have r: "run susp_nxt as (susp_setup True) = Some t" using assms by simp
  obtain bs u where u: "run susp_nxt (as @ bs) (susp_setup True) = Some u" "idle susp_nxt [True, False] u"
    using suspend.run_to_idle [OF r] by blast
  then show ?thesis
    using suspend.checked_run [OF u(1)] suspend.checked_run [OF r] suspend.run_bound [OF r] True
    unfolding susp_ok_def suspend.stuck_idle by auto
next
  case False
  then have r: "run susp_nxt as (susp_setup False) = Some t" using assms by simp
  obtain bs u where u: "run susp_nxt (as @ bs) (susp_setup False) = Some u" "idle susp_nxt [True, False] u"
    using suspend_alone.run_to_idle [OF r] by blast
  then show ?thesis
    using suspend_alone.checked_run [OF u(1)] suspend_alone.run_bound [OF r] False
    unfolding susp_hangs_def suspend.stuck_idle by auto
qed

theorem suspend_wakes_witness:
  "\<exists>bs u. run susp_nxt ([False, True] @ bs) (susp_setup True) = Some u \<and> sout u = susp_line"
proof -
  have "\<exists>t. run susp_nxt [False, True] (susp_setup True) = Some t"
    by (simp add: susp_nxt_def susp_setup_def susp_parent_def susp_child_def)
  then obtain t where "run susp_nxt [False, True] (susp_setup True) = Some t" ..
  from suspend_wakes [OF this] show ?thesis by auto
qed

text \<open>
  C27: Whenever the signal arrives, the read is not lost: every schedule leads to the end with the line
  \<open>handled=1 read resumed after signal\<close>, and no other line is ever printed. After a failed \<open>fork\<close>,
  which the program does not test, the read never returns: the program holds the writing end itself. A failing
  \<open>read\<close> ends the program with its error.
\<close>

theorem restart_resumes:
  assumes "restart_setup None None forked = Inr s" and "run (restart_nxt None) as s = Some t"
  shows "(if forked
    then length as < 10 \<and> rout t \<in> {[], restart_line}
      \<and> (\<exists>bs u. run (restart_nxt None) (as @ bs) s = Some u \<and> rparent u = RdDone \<and> rout u = restart_line)
    else t = s \<and> stuck (restart_nxt None) s \<and> rout s = [])
    \<and> restart_nxt (Some e) True s = Some (s\<lparr>rparent := RdDied (die_errno ''read'' e)\<rparr>)"
proof -
  have s: "s = restart_start forked" using assms(1) by (simp add: restart_setup_def restart_start_def)
  have e: "restart_nxt (Some e) True s = Some (s\<lparr>rparent := RdDied (die_errno ''read'' e)\<rparr>)"
    by (simp add: s restart_nxt_def restart_parent_def restart_start_def sig_handle_def sig_values_def)
  show ?thesis
  proof (cases forked)
    case True
    then have r: "run (restart_nxt None) as (restart_start True) = Some t" using assms(2) s by simp
    obtain bs u where u: "run (restart_nxt None) (as @ bs) (restart_start True) = Some u"
      "idle (restart_nxt None) [True, False] u"
      using restarted.run_to_idle [OF r] by blast
    then show ?thesis
      using restarted.checked_run [OF u(1)] restarted.checked_run [OF r] restarted.run_bound [OF r] True s e
      by (auto simp: restart_ok_def)
  next
    case False
    then have none: "restart_nxt None a s = None" for a
      by (simp add: s restart_nxt_def restart_start_def restart_parent_def restart_child_def sig_handle_def sig_values_def)
    then have "t = s" using assms(2) by (cases as) auto
    then show ?thesis using False none s e by (simp add: stuck_def restart_start_def)
  qed
qed

theorem restart_resumes_witness:
  "restart_setup None None True = Inr (restart_start True)
     \<and> (\<exists>bs u. run (restart_nxt None) ([] @ bs) (restart_start True) = Some u \<and> rout u = restart_line)"
proof -
  have "restart_setup None None True = Inr (restart_start True)"
    by (simp add: restart_setup_def restart_start_def)
  from this restart_resumes [OF this, of "[]" "restart_start True" EIO] show ?thesis by auto
qed

end
