(* ===== verification/Reactor.thy ===== *)
theory Reactor
  imports Signals
begin

text \<open>
  Two programs whose signal handler writes a byte to a pipe that the main loop polls:
  the supervisor of a worker (\<open>Signals/sigchld_supervisor.c\<close>) and the self-pipe reactor
  (\<open>Pipes/self_pipe_signal_reactor.c\<close>). The kernel does not restart \<open>poll\<close> after a handler, whatever
  \<open>SA_RESTART\<close> says, and a call that is interrupted fails with \<open>EINTR\<close>.
\<close>

subsection \<open>The supervisor\<close>

text \<open>
  Lines of output, with the attempt number or the exit status; \<open>sup_text\<close> gives their text, \<open>p\<close> being the
  process numbers of the workers.
\<close>

datatype sup_line = Attempt nat | Reaped nat nat

fun sup_text :: "(nat \<Rightarrow> int) \<Rightarrow> sup_line \<Rightarrow> string" where
  "sup_text p (Attempt a) = ''worker attempt='' @ fmt_d (int a) @ '' pid='' @ fmt_d (p a) @ [newline]"
| "sup_text p (Reaped a st) =
     ''supervisor reaped pid='' @ fmt_d (p a) @ '' status='' @ fmt_d (int st) @ [newline]"

text \<open>
  The supervisor is about to fork, about to call \<open>poll\<close>, waiting inside it, reading the pipe, or reaping; the
  worker of attempt \<open>a\<close> prints, exits, and is then a zombie with its status.
\<close>

datatype sup_pc = SFork | SPoll | SPolling | SDrain | SWait | SExit | SDie halt
datatype worker_pc = WPrint nat | WExit nat | WZombie nat nat | WNone

record sup =
  spipe :: nat \<comment> \<open>bytes in the pipe\<close>
  schld :: bool \<comment> \<open>\<open>SIGCHLD\<close> is pending\<close>
  attempt :: nat
  spc :: sup_pc
  wpc :: worker_pc
  sbuf :: "sup_line list" \<comment> \<open>stdio buffer of the supervisor\<close>
  wbuf :: "sup_line list" \<comment> \<open>stdio buffer of the worker\<close>
  slines :: "sup_line list" \<comment> \<open>what has been written\<close>

definition RESTART_LIMIT :: nat where
  "RESTART_LIMIT = 2"

definition on_sigchld :: "sup \<Rightarrow> sup" where
  "on_sigchld s = s\<lparr>spipe := spipe s + 1, schld := False\<rparr>"

text \<open>\<open>fork\<close> copies the stdio buffer; \<open>exit\<close> writes it.\<close>

definition start_worker :: "errno option \<Rightarrow> sup \<Rightarrow> sup" where
  "start_worker fork_res s =
     (case fork_res of
        None \<Rightarrow> s\<lparr>wpc := WPrint (attempt s), wbuf := sbuf s, spc := SPoll\<rparr>
      | Some e \<Rightarrow> s\<lparr>slines := slines s @ sbuf s, sbuf := [], spc := SDie (die_errno ''fork'' e)\<rparr>)"

definition poll_failed :: "sup \<Rightarrow> sup" where
  "poll_failed s =
     s\<lparr>slines := slines s @ sbuf s, sbuf := [], spc := SDie (die ''poll timed out waiting for SIGCHLD'')\<rparr>"

definition sup_print :: "bool \<Rightarrow> sup_line \<Rightarrow> sup \<Rightarrow> sup" where
  "sup_print tty l s = (if tty then s\<lparr>slines := slines s @ [l]\<rparr> else s\<lparr>sbuf := sbuf s @ [l]\<rparr>)"

text \<open>The loop condition and the end of \<open>main\<close>.\<close>

definition sup_loop :: "sup \<Rightarrow> sup" where
  "sup_loop s =
     (if attempt s < RESTART_LIMIT then s\<lparr>spc := SPoll\<rparr>
      else s\<lparr>slines := slines s @ sbuf s, sbuf := [], spc := SExit\<rparr>)"

definition sup_reap :: "bool \<Rightarrow> sup \<Rightarrow> sup" where
  "sup_reap tty s =
     (case wpc s of
        WZombie a st \<Rightarrow>
          let s1 = sup_print tty (Reaped a st) (s\<lparr>wpc := WNone, attempt := attempt s + 1\<rparr>)
          in if attempt s1 < RESTART_LIMIT then s1\<lparr>spc := SFork\<rparr> else sup_loop s1
      | _ \<Rightarrow> sup_loop s)"

text \<open>
  What can happen: the supervisor goes on, or the call it makes now fails (\<open>fork\<close>, with the error \<open>EAGAIN\<close> of a process limit) or
  times out (\<open>poll\<close>);
  the pending signal is delivered outside of a system call; the worker goes on.
\<close>

datatype sup_act = Go | Failing | Deliver | Work

definition sup_go :: "bool \<Rightarrow> sup \<Rightarrow> sup option" where
  "sup_go tty s =
     (case spc s of
        SFork \<Rightarrow> Some (start_worker None s)
      | SPoll \<Rightarrow>
          Some (if 0 < spipe s then s\<lparr>spc := SDrain\<rparr>
                else if schld s then poll_failed (on_sigchld s)
                else s\<lparr>spc := SPolling\<rparr>)
      | SPolling \<Rightarrow>
          if 0 < spipe s then Some (s\<lparr>spc := SDrain\<rparr>)
          else if schld s then Some (poll_failed (on_sigchld s))
          else None
      | SDrain \<Rightarrow> if 0 < spipe s then Some (s\<lparr>spipe := spipe s - 8, spc := SWait\<rparr>) else None
      | SWait \<Rightarrow> Some (sup_reap tty s)
      | _ \<Rightarrow> None)"

definition sup_failing :: "sup \<Rightarrow> sup option" where
  "sup_failing s =
     (case spc s of
        SFork \<Rightarrow> Some (start_worker (Some EAGAIN) s)
      | SPolling \<Rightarrow> if spipe s = 0 \<and> \<not> schld s then Some (poll_failed s) else None
      | _ \<Rightarrow> None)"

definition sup_deliver :: "sup \<Rightarrow> sup option" where
  "sup_deliver s =
     (if schld s \<and> spc s \<in> {SFork, SPoll, SDrain, SWait} then Some (on_sigchld s) else None)"

definition sup_work :: "sup \<Rightarrow> sup option" where
  "sup_work s =
     (case wpc s of
        WPrint a \<Rightarrow> Some (s\<lparr>slines := slines s @ wbuf s @ [Attempt a], wbuf := [], wpc := WExit a\<rparr>)
      | WExit a \<Rightarrow> Some (s\<lparr>wpc := WZombie a (30 + a), schld := True\<rparr>)
      | _ \<Rightarrow> None)"

fun sup_nxt :: "bool \<Rightarrow> sup_act \<Rightarrow> sup \<Rightarrow> sup option" where
  "sup_nxt tty Go s = sup_go tty s"
| "sup_nxt tty Failing s = sup_failing s"
| "sup_nxt tty Deliver s = sup_deliver s"
| "sup_nxt tty Work s = sup_work s"

definition sup_setup :: "errno option \<Rightarrow> sup res" where
  "sup_setup pipe_res =
     (case pipe_res of
        Some e \<Rightarrow> Inl (die_errno ''pipe'' e)
      | None \<Rightarrow> Inr \<lparr>spipe = 0, schld = False, attempt = 0, spc = SFork, wpc = WNone, sbuf = [], wbuf = [],
                     slines = []\<rparr>)"

definition sup_start :: sup where
  "sup_start = \<lparr>spipe = 0, schld = False, attempt = 0, spc = SFork, wpc = WNone, sbuf = [], wbuf = [], slines = []\<rparr>"

definition sup_acts :: "sup_act list" where
  "sup_acts = [Go, Failing, Deliver, Work]"

text \<open>The complete output: the second worker writes the supervisor's buffered line a second time.\<close>

definition sup_output :: "bool \<Rightarrow> sup_line list" where
  "sup_output tty =
     (if tty then [Attempt 0, Reaped 0 30, Attempt 1, Reaped 1 31]
      else [Attempt 0, Reaped 0 30, Attempt 1, Reaped 0 30, Reaped 1 31])"

definition sup_dead :: "sup \<Rightarrow> bool" where
  "sup_dead s \<longleftrightarrow>
     spc s = SDie (die ''poll timed out waiting for SIGCHLD'') \<or> spc s = SDie (die_errno ''fork'' EAGAIN)"

text \<open>Steps of the environment that do not let a call fail.\<close>

definition sup_clean :: "sup_act \<Rightarrow> bool" where
  "sup_clean a \<longleftrightarrow> a \<noteq> Failing"

definition sup_ok :: "bool \<Rightarrow> sup \<Rightarrow> bool" where
  "sup_ok tty s \<longleftrightarrow>
     (spc s = SExit \<longrightarrow> slines s = sup_output tty)
     \<and> (idle (only sup_clean (sup_nxt tty)) sup_acts s \<longrightarrow> spc s = SExit \<or> sup_dead s)
     \<and> (spc s = SPolling \<longrightarrow>
          explore (sup_nxt tty) sup_acts
            (\<lambda>u. idle (only sup_clean (sup_nxt tty)) sup_acts u \<longrightarrow> spc u = SDie (die ''poll timed out waiting for SIGCHLD'')) 10 [s])"

interpretation tty_sup: explored_system "sup_nxt True" sup_acts sup_start "sup_ok True" 40
proof unfold_locales
  show "explore (sup_nxt True) sup_acts (sup_ok True) 40 [sup_start]" by code_simp
next
  fix a s
  show "a \<notin> set sup_acts \<Longrightarrow> sup_nxt True a s = None" by (cases a) (simp_all add: sup_acts_def)
qed

interpretation file_sup: explored_system "sup_nxt False" sup_acts sup_start "sup_ok False" 40
proof unfold_locales
  show "explore (sup_nxt False) sup_acts (sup_ok False) 40 [sup_start]" by code_simp
next
  fix a s
  show "a \<notin> set sup_acts \<Longrightarrow> sup_nxt False a s = None" by (cases a) (simp_all add: sup_acts_def)
qed

subsection \<open>The self-pipe reactor\<close>

text \<open>
  The handler writes the signal number. The alarm is not yet set, set, pending, or handled; it comes one
  second after it was set and \<open>poll\<close> waits for one and a half, so that a \<open>poll\<close> cannot time out before it.
\<close>

datatype alarm = Unset | Armed | Fired | Over
datatype react_pc = RRaise | RAlarm | RPoll | RPolling | RRead | RClose | RExit | RDie halt

record react =
  ralarm :: alarm
  rbytes :: "nat list" \<comment> \<open>the pipe\<close>
  events :: nat
  rpc :: react_pc
  rlines :: "nat list" \<comment> \<open>signal numbers printed\<close>

definition react_text :: "nat \<Rightarrow> string" where
  "react_text signo = ''main loop handled signal '' @ fmt_d (int signo) @ '' outside handler'' @ [newline]"

definition signal_handler :: "nat \<Rightarrow> react \<Rightarrow> react" where
  "signal_handler signo s = s\<lparr>rbytes := rbytes s @ [signo mod 256]\<rparr>"

definition react_loop :: "react \<Rightarrow> react" where
  "react_loop s = s\<lparr>rpc := (if events s < 2 then RPoll else RClose)\<rparr>"

definition react_poll :: "react \<Rightarrow> react option" where
  "react_poll s =
     (if rbytes s \<noteq> [] then Some (s\<lparr>rpc := RRead\<rparr>)
      else if ralarm s = Fired
      then Some ((signal_handler SIGALRM s)\<lparr>ralarm := Over, rpc := RDie (die ''poll timed out'')\<rparr>)
      else None)"

definition react_go :: "react \<Rightarrow> react option" where
  "react_go s =
     (case rpc s of
        RRaise \<Rightarrow> Some ((signal_handler SIGUSR1 s)\<lparr>rpc := RAlarm\<rparr>)
      | RAlarm \<Rightarrow> Some (react_loop (s\<lparr>ralarm := Armed\<rparr>))
      | RPoll \<Rightarrow> (case react_poll s of Some t \<Rightarrow> Some t | None \<Rightarrow> Some (s\<lparr>rpc := RPolling\<rparr>))
      | RPolling \<Rightarrow> react_poll s
      | RRead \<Rightarrow>
          (case rbytes s of
             [] \<Rightarrow> None
           | b # bs \<Rightarrow> Some (react_loop (s\<lparr>rbytes := bs, rlines := rlines s @ [b], events := events s + 1\<rparr>)))
      | RClose \<Rightarrow> Some (s\<lparr>rpc := RExit\<rparr>)
      | _ \<Rightarrow> None)"

datatype react_act = RGo | RTimeout | RFire | RDeliver

definition react_exited :: "react \<Rightarrow> bool" where
  "react_exited s \<longleftrightarrow> (case rpc s of RExit \<Rightarrow> True | RDie h \<Rightarrow> True | _ \<Rightarrow> False)"

fun react_nxt :: "react_act \<Rightarrow> react \<Rightarrow> react option" where
  "react_nxt RGo s = react_go s"
| "react_nxt RTimeout s =
     (if rpc s = RPolling \<and> rbytes s = [] \<and> ralarm s \<notin> {Armed, Fired}
      then Some (s\<lparr>rpc := RDie (die ''poll timed out'')\<rparr>) else None)"
| "react_nxt RFire s = (if ralarm s = Armed \<and> \<not> react_exited s then Some (s\<lparr>ralarm := Fired\<rparr>) else None)"
| "react_nxt RDeliver s =
     (if ralarm s = Fired \<and> rpc s \<in> {RPoll, RRead, RClose}
      then Some ((signal_handler SIGALRM s)\<lparr>ralarm := Over\<rparr>) else None)"

definition react_setup :: "errno option \<Rightarrow> errno option \<Rightarrow> errno option \<Rightarrow> react res" where
  "react_setup pipe_res usr1_res alrm_res =
     (case pipe_res of
        Some e \<Rightarrow> Inl (die_errno ''pipe'' e)
      | None \<Rightarrow>
          (case usr1_res of
             Some e \<Rightarrow> Inl (die_errno ''sigaction'' e)
           | None \<Rightarrow>
               (case alrm_res of
                  Some e \<Rightarrow> Inl (die_errno ''sigaction'' e)
                | None \<Rightarrow> Inr \<lparr>ralarm = Unset, rbytes = [], events = 0, rpc = RRaise, rlines = []\<rparr>)))"

definition react_start :: react where
  "react_start = \<lparr>ralarm = Unset, rbytes = [], events = 0, rpc = RRaise, rlines = []\<rparr>"

definition react_acts :: "react_act list" where
  "react_acts = [RGo, RTimeout, RFire, RDeliver]"

text \<open>Without a timeout.\<close>

definition react_clean :: "react_act \<Rightarrow> bool" where
  "react_clean a \<longleftrightarrow> a \<noteq> RTimeout"

definition react_ok :: "react \<Rightarrow> bool" where
  "react_ok s \<longleftrightarrow>
     (rpc s = RExit \<longrightarrow> rlines s = [10, 14])
     \<and> (idle (only react_clean react_nxt) react_acts s \<longrightarrow>
          rpc s = RExit \<or> rpc s = RDie (die ''poll timed out'') \<and> rlines s = [10])
     \<and> (rpc s = RPolling \<longrightarrow>
          explore react_nxt react_acts
            (\<lambda>u. idle (only react_clean react_nxt) react_acts u \<longrightarrow> rpc u = RDie (die ''poll timed out'')) 10 [s])"

interpretation reactor: explored_system react_nxt react_acts react_start react_ok 20
proof unfold_locales
  show "explore react_nxt react_acts react_ok 20 [react_start]" by code_simp
next
  fix a s
  show "a \<notin> set react_acts \<Longrightarrow> react_nxt a s = None" by (cases a) (simp_all add: react_acts_def)
qed

subsection \<open>Properties\<close>

text \<open>What the two explorations give for every schedule of the supervisor.\<close>

definition sup_facts :: "bool \<Rightarrow> sup_act list \<Rightarrow> sup \<Rightarrow> bool" where
  "sup_facts tty as t \<longleftrightarrow>
     length as < 40 \<and> sup_ok tty t
     \<and> (stuck (only sup_clean (sup_nxt tty)) t \<longrightarrow> spc t = SExit \<or> sup_dead t)
     \<and> (spc t = SPolling \<longrightarrow>
          (\<forall>bs u. run (sup_nxt tty) bs t = Some u \<longrightarrow> stuck (only sup_clean (sup_nxt tty)) u \<longrightarrow>
             spc u = SDie (die ''poll timed out waiting for SIGCHLD'')))"

lemma tty_sup_facts:
  assumes r: "run (sup_nxt True) as sup_start = Some t"
  shows "sup_facts True as t"
proof -
  have "spc u = SDie (die ''poll timed out waiting for SIGCHLD'')"
    if "spc t = SPolling" "run (sup_nxt True) bs t = Some u" "stuck (only sup_clean (sup_nxt True)) u" for bs u
    using that tty_sup.checked_run [OF r] tty_sup.explored_from [OF _ that(2)]
    unfolding sup_ok_def tty_sup.stuck_only by blast
  moreover have "stuck (only sup_clean (sup_nxt True)) t \<longrightarrow> spc t = SExit \<or> sup_dead t"
    using tty_sup.checked_run [OF r] unfolding sup_ok_def tty_sup.stuck_only by blast
  ultimately show ?thesis
    unfolding sup_facts_def using tty_sup.run_bound [OF r] tty_sup.checked_run [OF r] by blast
qed

lemma file_sup_facts:
  assumes r: "run (sup_nxt False) as sup_start = Some t"
  shows "sup_facts False as t"
proof -
  have "spc u = SDie (die ''poll timed out waiting for SIGCHLD'')"
    if "spc t = SPolling" "run (sup_nxt False) bs t = Some u" "stuck (only sup_clean (sup_nxt False)) u" for bs u
    using that file_sup.checked_run [OF r] file_sup.explored_from [OF _ that(2)]
    unfolding sup_ok_def file_sup.stuck_only by blast
  moreover have "stuck (only sup_clean (sup_nxt False)) t \<longrightarrow> spc t = SExit \<or> sup_dead t"
    using file_sup.checked_run [OF r] unfolding sup_ok_def file_sup.stuck_only by blast
  ultimately show ?thesis
    unfolding sup_facts_def using file_sup.run_bound [OF r] file_sup.checked_run [OF r] by blast
qed

lemma sup_facts_run: "run (sup_nxt tty) as sup_start = Some t \<Longrightarrow> sup_facts tty as t"
  using tty_sup_facts file_sup_facts by (cases tty) simp_all

text \<open>
  C28: Every schedule of the supervisor has fewer than 40 steps, and where nothing can happen any more unless a
  call fails it has ended: by the return of \<open>main\<close>, with both attempts reported, or with an error message. When
  the output is not a terminal the report of the first attempt appears twice, because the second worker
  flushes a copy of the supervisor's buffer. Whenever the supervisor actually waits inside \<open>poll\<close>,
  the run ends with the message that the poll timed out, even though the worker exits in time: the signal interrupts the call.
\<close>

theorem supervisor_outcomes:
  assumes "sup_setup None = Inr s" and "run (sup_nxt tty) as s = Some t"
  shows "length as < 40 \<and> (spc t = SExit \<longrightarrow> slines t = sup_output tty)
    \<and> (stuck (only sup_clean (sup_nxt tty)) t \<longrightarrow> spc t = SExit \<or> sup_dead t)
    \<and> (spc t = SPolling \<longrightarrow>
         (\<forall>bs u. run (sup_nxt tty) bs t = Some u \<longrightarrow> stuck (only sup_clean (sup_nxt tty)) u \<longrightarrow>
            spc u = SDie (Exit 1 (''error: poll timed out waiting for SIGCHLD'' @ [newline]))))"
proof -
  have s: "s = sup_start" using assms(1) by (simp add: sup_setup_def sup_start_def)
  have d: "Exit 1 (''error: poll timed out waiting for SIGCHLD'' @ [newline]) = die ''poll timed out waiting for SIGCHLD''"
    by (simp add: die_def)
  have f: "sup_facts tty as t" using sup_facts_run assms(2) s by simp
  then have "spc t = SExit \<longrightarrow> slines t = sup_output tty" by (simp add: sup_facts_def sup_ok_def)
  then show ?thesis using f unfolding sup_facts_def d by blast
qed

text \<open>One schedule in which the signal comes between two calls, and one in which it interrupts \<open>poll\<close>.\<close>

definition sup_lucky :: "sup_act list" where
  "sup_lucky = [Go, Work, Work, Deliver, Go, Go, Go, Go, Work, Work, Deliver, Go, Go, Go]"

definition sup_waiting :: sup where
  "sup_waiting = \<lparr>spipe = 0, schld = False, attempt = 0, spc = SPolling, wpc = WPrint 0, sbuf = [], wbuf = [], slines = []\<rparr>"

lemma sup_lucky_run: "map_option spc (run (sup_nxt False) sup_lucky sup_start) = Some SExit"
  by code_simp

lemma sup_waiting_run: "run (sup_nxt False) [Go, Go] sup_start = Some sup_waiting"
  by code_simp

definition sup_interrupted :: sup where
  "sup_interrupted =
     \<lparr>spipe = 1, schld = False, attempt = 0, spc = SDie (die ''poll timed out waiting for SIGCHLD''),
      wpc = WZombie 0 30, sbuf = [], wbuf = [], slines = [Attempt 0]\<rparr>"

lemma sup_interrupted_run: "run (sup_nxt False) [Work, Work, Go] sup_waiting = Some sup_interrupted"
  by code_simp

lemma sup_interrupted_idle: "idle (only sup_clean (sup_nxt False)) sup_acts sup_interrupted"
  by code_simp

theorem supervisor_outcomes_witness:
  "map_option slines (run (sup_nxt False) sup_lucky sup_start)
       = Some [Attempt 0, Reaped 0 30, Attempt 1, Reaped 0 30, Reaped 1 31]
   \<and> map_option spc (run (sup_nxt False) [Work, Work, Go] sup_waiting)
       = Some (SDie (Exit 1 (''error: poll timed out waiting for SIGCHLD'' @ [newline])))"
proof -
  have s: "sup_setup None = Inr sup_start" by (simp add: sup_setup_def sup_start_def)
  obtain t where "run (sup_nxt False) sup_lucky sup_start = Some t" "spc t = SExit"
    using sup_lucky_run by auto
  moreover have "stuck (only sup_clean (sup_nxt False)) sup_interrupted" "spc sup_waiting = SPolling"
    using sup_interrupted_idle by (simp_all add: file_sup.stuck_only sup_waiting_def)
  then have "spc sup_interrupted = SDie (Exit 1 (''error: poll timed out waiting for SIGCHLD'' @ [newline]))"
    using supervisor_outcomes [OF s sup_waiting_run] sup_interrupted_run by blast
  ultimately show ?thesis
    using supervisor_outcomes [OF s, of False sup_lucky t]
    by (simp add: sup_interrupted_run sup_output_def del: run.simps)
qed

text \<open>
  C29: Every schedule of the reactor has fewer than 20 steps and ends, where nothing but a timeout can happen, with both signals handled in the main loop, or with
  the message that the poll timed out after the first. Whenever the reactor waits inside \<open>poll\<close> for the
  alarm, as it does unless it is held up for a second elsewhere, it ends with that message: the alarm interrupts the
  call, which \<open>SA_RESTART\<close> does not restart.
\<close>

theorem reactor_outcomes:
  assumes "react_setup None None None = Inr s" and "run react_nxt as s = Some t"
  shows "length as < 20
    \<and> (stuck (only react_clean react_nxt) t \<longrightarrow>
         rpc t = RExit \<and> rlines t = [SIGUSR1, SIGALRM]
         \<or> rpc t = RDie (Exit 1 (''error: poll timed out'' @ [newline])) \<and> rlines t = [SIGUSR1])
    \<and> (rpc t = RPolling \<longrightarrow>
         (\<forall>bs u. run react_nxt bs t = Some u \<longrightarrow> stuck (only react_clean react_nxt) u \<longrightarrow>
            rpc u = RDie (Exit 1 (''error: poll timed out'' @ [newline]))))"
proof -
  have s: "s = react_start" using assms(1) by (simp add: react_setup_def react_start_def)
  have die: "die ''poll timed out'' = Exit 1 (''error: poll timed out'' @ [newline])" by (simp add: die_def)
  have r: "run react_nxt as react_start = Some t" using assms(2) s by simp
  have ok: "react_ok t" using reactor.checked_run [OF r] .
  have "rpc t = RExit \<and> rlines t = [SIGUSR1, SIGALRM]
      \<or> rpc t = RDie (Exit 1 (''error: poll timed out'' @ [newline])) \<and> rlines t = [SIGUSR1]"
    if "stuck (only react_clean react_nxt) t"
    using ok that unfolding reactor.stuck_only by (auto simp: react_ok_def die SIGUSR1_def SIGALRM_def)
  moreover have "rpc v = RDie (Exit 1 (''error: poll timed out'' @ [newline]))"
    if "rpc t = RPolling" "run react_nxt cs t = Some v" "stuck (only react_clean react_nxt) v" for cs v
    using that ok reactor.explored_from [OF _ that(2)] unfolding react_ok_def die reactor.stuck_only by blast
  ultimately show ?thesis using reactor.run_bound [OF r] by blast
qed

definition react_waiting :: react where
  "react_waiting = \<lparr>ralarm = Armed, rbytes = [], events = 1, rpc = RPolling, rlines = [10]\<rparr>"

lemma react_waiting_run: "run react_nxt [RGo, RGo, RGo, RGo, RGo] react_start = Some react_waiting"
  by code_simp

definition react_interrupted :: react where
  "react_interrupted =
     \<lparr>ralarm = Over, rbytes = [14], events = 1, rpc = RDie (die ''poll timed out''), rlines = [10]\<rparr>"

lemma react_interrupted_run: "run react_nxt [RFire, RGo] react_waiting = Some react_interrupted"
  by code_simp

lemma react_interrupted_idle: "idle (only react_clean react_nxt) react_acts react_interrupted"
  by code_simp

theorem reactor_outcomes_witness:
  "react_setup None None None = Inr react_start
   \<and> map_option rpc (run react_nxt [RFire, RGo] react_waiting)
       = Some (RDie (Exit 1 (''error: poll timed out'' @ [newline])))"
proof -
  have s: "react_setup None None None = Inr react_start" by (simp add: react_setup_def react_start_def)
  have "stuck (only react_clean react_nxt) react_interrupted" "rpc react_waiting = RPolling"
    using react_interrupted_idle by (simp_all add: reactor.stuck_only react_waiting_def)
  then have "rpc react_interrupted = RDie (Exit 1 (''error: poll timed out'' @ [newline]))"
    using reactor_outcomes [OF s react_waiting_run] react_interrupted_run by blast
  then show ?thesis using s by (simp add: react_interrupted_run del: run.simps)
qed

end
