(* ===== verification/PipePrograms.thy ===== *)
theory PipePrograms
  imports Common
begin

text \<open>
  The programs of \<open>Pipes/\<close> besides the self-pipe reactor: the chat over two FIFOs
  (\<open>fifo_select_chat.c\<close>), requests and replies over two pipes (\<open>full_duplex_pipe_poll.c\<close>), the pipe to
  another program (\<open>anonymous_pipeline_exec.c\<close>) and the copy with \<open>splice\<close>
  (\<open>splice_zero_copy_pipe.c\<close>). A pipe holds the bytes that were written and not yet read; the messages
  are shorter than \<open>PIPE_BUF\<close>, so that a \<open>write\<close> is atomic.
\<close>

subsection \<open>The chat over two FIFOs\<close>

text \<open>
  The parent is peer A, the child peer B. Opening for reading with \<open>O_NONBLOCK\<close> succeeds at once; opening for
  writing waits until the other peer has opened the same FIFO for reading.
\<close>

datatype peer_pc =
    OpenRx
  | OpenTx "errno option" \<comment> \<open>the error of the first \<open>open\<close>, which is looked at after the second\<close>
  | PWrite nat
  | PSelect nat
  | PRead nat
  | PEnd
  | PGone
  | PDied bool halt \<comment> \<open>whether the peer had opened its FIFO for writing\<close>

record chat =
  to_a :: string \<comment> \<open>\<open>FIFO_B\<close>, written by peer B\<close>
  to_b :: string \<comment> \<open>\<open>FIFO_A\<close>, written by peer A\<close>
  a_pc :: peer_pc
  b_pc :: peer_pc
  a_seen :: "string list" \<comment> \<open>texts received and printed\<close>
  b_seen :: "string list"
  names :: bool \<comment> \<open>the two FIFOs exist\<close>

definition chat_message :: "string \<Rightarrow> nat \<Rightarrow> string" where
  "chat_message name i = fst (snprintf 96 (name @ '' message '' @ fmt_d (int i + 1) @ [newline]))"

definition peer_loop :: "nat \<Rightarrow> peer_pc" where
  "peer_loop i = (if i < 3 then PWrite i else PEnd)"

text \<open>A peer that reads from its FIFO, and one whose writing end was open and has been closed.\<close>

fun peer_reads :: "peer_pc \<Rightarrow> bool" where
  "peer_reads OpenRx = False"
| "peer_reads (OpenTx (Some e)) = False"
| "peer_reads PGone = False"
| "peer_reads (PDied opened h) = False"
| "peer_reads pc = True"

fun hung_up :: "peer_pc \<Rightarrow> bool" where
  "hung_up PGone = True"
| "hung_up (PDied opened h) = opened"
| "hung_up pc = False"

text \<open>
  One step of \<open>peer\<close>: \<open>rx\<close> is what the peer can read, \<open>other\<close> where the other peer is. The result gives the
  next position, the bytes written, the bytes read and, when there were some, the text printed. A peer that has exited has
  closed its end, which \<open>select\<close> reports and \<open>read\<close> returns as the end of the data; writing to it raises \<open>SIGPIPE\<close>.
\<close>

definition peer_step ::
    "string \<Rightarrow> string \<Rightarrow> peer_pc \<Rightarrow> peer_pc \<Rightarrow> (peer_pc \<times> string \<times> string \<times> string list) option" where
  "peer_step name rx other pc =
     (case pc of
        OpenRx \<Rightarrow> Some (OpenTx None, [], rx, [])
      | OpenTx rx_res \<Rightarrow>
          (if \<not> peer_reads other then None
           else
             (case rx_res of
                Some e \<Rightarrow> Some (PDied True (die_errno ''open fifo'' e), [], rx, [])
              | None \<Rightarrow> Some (peer_loop 0, [], rx, [])))
      | PWrite i \<Rightarrow>
          (if peer_reads other then Some (PSelect i, chat_message name i, rx, [])
           else Some (PDied True (Killed ''SIGPIPE''), [], rx, []))
      | PSelect i \<Rightarrow> if rx \<noteq> [] \<or> hung_up other then Some (PRead i, [], rx, []) else None
      | PRead i \<Rightarrow>
          Some (peer_loop (i + 1), [], drop 95 rx, if rx = [] then [] else [take 95 rx])
      | _ \<Rightarrow> None)"

text \<open>
  A step whose call fails: the errors of the two \<open>open\<close> and of \<open>select\<close> end the process, those of the write and the \<open>read\<close>
  are ignored.
\<close>

fun peer_fails :: "errno \<Rightarrow> peer_pc \<Rightarrow> peer_pc option" where
  "peer_fails e OpenRx = Some (OpenTx (Some e))"
| "peer_fails e (OpenTx rx_res) = Some (PDied False (die_errno ''open fifo'' e))"
| "peer_fails e (PWrite i) = Some (PSelect i)"
| "peer_fails e (PSelect i) = Some (PDied True (die_errno ''select'' e))"
| "peer_fails e (PRead i) = Some (peer_loop (i + 1))"
| "peer_fails e pc = None"

definition chat_child :: "chat \<Rightarrow> chat option" where
  "chat_child s =
     (if b_pc s = PEnd then Some (s\<lparr>b_pc := PGone\<rparr>)
      else
        (case peer_step ''peer-B'' (to_b s) (a_pc s) (b_pc s) of
           None \<Rightarrow> None
         | Some (pc, out, rx, seen) \<Rightarrow>
             Some (s\<lparr>b_pc := pc, to_a := to_a s @ out, to_b := rx, b_seen := b_seen s @ seen\<rparr>)))"

text \<open>The parent keeps its descriptors open while it waits for the child.\<close>

definition chat_parent :: "chat \<Rightarrow> chat option" where
  "chat_parent s =
     (if a_pc s = PEnd then
        (case b_pc s of
           PGone \<Rightarrow> Some (s\<lparr>a_pc := PGone, names := False\<rparr>)
         | PDied opened h \<Rightarrow> Some (s\<lparr>a_pc := PGone, names := False\<rparr>)
         | _ \<Rightarrow> None)
      else
        (case peer_step ''peer-A'' (to_a s) (b_pc s) (a_pc s) of
           None \<Rightarrow> None
         | Some (pc, out, rx, seen) \<Rightarrow>
             Some (s\<lparr>a_pc := pc, to_b := to_b s @ out, to_a := rx, a_seen := a_seen s @ seen\<rparr>)))"

datatype chat_act = ChatStep bool | ChatFails bool errno \<comment> \<open>\<open>True\<close>: the parent\<close>

fun chat_nxt :: "chat_act \<Rightarrow> chat \<Rightarrow> chat option" where
  "chat_nxt (ChatStep parent) s = (if parent then chat_parent s else chat_child s)"
| "chat_nxt (ChatFails parent e) s =
     (if parent then map_option (\<lambda>pc. s\<lparr>a_pc := pc\<rparr>) (peer_fails e (a_pc s))
      else map_option (\<lambda>pc. s\<lparr>b_pc := pc\<rparr>) (peer_fails e (b_pc s)))"

fun chat_clean :: "chat_act \<Rightarrow> bool" where
  "chat_clean (ChatStep parent) = True"
| "chat_clean (ChatFails parent e) = False"

definition chat_acts :: "chat_act list" where
  "chat_acts = [ChatStep True, ChatStep False]"

definition mkfifo_clean :: "errno option \<Rightarrow> unit res" where
  "mkfifo_clean mkfifo_res = (case mkfifo_res of Some e \<Rightarrow> Inl (die_errno ''mkfifo'' e) | None \<Rightarrow> Inr ())"

definition chat_setup :: "errno option \<Rightarrow> errno option \<Rightarrow> errno option \<Rightarrow> chat res" where
  "chat_setup mkfifo_a mkfifo_b fork_res =
     (case mkfifo_clean mkfifo_a of
        Inl h \<Rightarrow> Inl h
      | Inr _ \<Rightarrow>
          (case mkfifo_clean mkfifo_b of
             Inl h \<Rightarrow> Inl h
           | Inr _ \<Rightarrow>
               (case fork_res of
                  Some e \<Rightarrow> Inl (die_errno ''fork'' e)
                | None \<Rightarrow> Inr \<lparr>to_a = [], to_b = [], a_pc = OpenRx, b_pc = OpenRx, a_seen = [], b_seen = [],
                               names = True\<rparr>)))"

definition chat_start :: chat where
  "chat_start = \<lparr>to_a = [], to_b = [], a_pc = OpenRx, b_pc = OpenRx, a_seen = [], b_seen = [], names = True\<rparr>"

definition chat_all :: "string \<Rightarrow> string" where
  "chat_all name = chat_message name 0 @ chat_message name 1 @ chat_message name 2"

text \<open>
  What is printed is a prefix of what the other peer sends. When nothing can move, either both have ended and
  all was printed, or the child waits in \<open>select\<close> for a fourth message and the parent for the child; this
  happens exactly when the child has received all messages in fewer than three reads.
\<close>

definition chat_ok :: "chat \<Rightarrow> bool" where
  "chat_ok s \<longleftrightarrow>
     take (length (concat (a_seen s))) (chat_all ''peer-B'') = concat (a_seen s)
     \<and> take (length (concat (b_seen s))) (chat_all ''peer-A'') = concat (b_seen s)
     \<and> (idle (only chat_clean chat_nxt) chat_acts s \<longrightarrow>
          concat (a_seen s) = chat_all ''peer-B'' \<and> concat (b_seen s) = chat_all ''peer-A''
          \<and> (if length (b_seen s) = 3 then a_pc s = PGone \<and> b_pc s = PGone \<and> \<not> names s
             else a_pc s = PEnd \<and> b_pc s = PSelect 2 \<and> names s))"

interpretation chat: explored_system "only chat_clean chat_nxt" chat_acts chat_start chat_ok 40
proof unfold_locales
  show "only chat_clean chat_nxt a s = None" if "a \<notin> set chat_acts" for a s
    using that by (cases a) (auto simp: only_def chat_acts_def)
  show "explore (only chat_clean chat_nxt) chat_acts chat_ok 40 [chat_start]" by code_simp
qed

lemma chat_open_fails:
  "\<exists>u. run chat_nxt [ChatFails False e, ChatStep True, ChatStep False] chat_start = Some u
     \<and> b_pc u = PDied True (die_errno ''open fifo'' e) \<and> a_pc u = OpenTx None
     \<and> idle (only chat_clean chat_nxt) chat_acts u"
  by (simp add: chat_start_def chat_parent_def chat_child_def peer_step_def idle_def only_def chat_acts_def)

subsection \<open>Requests and replies over two pipes\<close>

datatype duplex_pc = DWrite nat | DPoll nat | DRead nat | DClose | DReap | DExit | DDie halt
datatype duplex_child_pc = CRead | CReply string | CGone | CDied halt

record duplex =
  p2c :: string \<comment> \<open>\<open>parent_to_child\<close>\<close>
  p2c_open :: bool \<comment> \<open>its writing end is open\<close>
  c2p :: string \<comment> \<open>\<open>child_to_parent\<close>\<close>
  dpc :: duplex_pc
  cpc :: duplex_child_pc
  dout :: string

definition requests :: "string list" where
  "requests = [''read inode'' @ [newline], ''flush page cache'' @ [newline], ''sync journal'' @ [newline]]"

definition processed_text :: "int \<Rightarrow> string \<Rightarrow> string" where
  "processed_text pid buffer = ''child pid='' @ fmt_d pid @ '' processed: '' @ cstring buffer"

text \<open>
  \<open>write_all (tx, reply, len)\<close> after \<open>len = snprintf (reply, 160, ...)\<close>: the length is that of the whole text, so that a
  text that was cut makes the call read behind the array.
\<close>

definition send_reply :: "string \<Rightarrow> string res" where
  "send_reply txt =
     (case snprintf 160 txt of
        (reply, len) \<Rightarrow>
          if nat len \<le> length reply then Inr (take (nat len) reply)
          else if len = 160 then Inr (reply @ [CHR 0x00])
          else Inl (Undef ''read outside the buffer''))"

definition child_loop :: "int \<Rightarrow> duplex \<Rightarrow> duplex option" where
  "child_loop pid s =
     (case cpc s of
        CRead \<Rightarrow>
          (if p2c s \<noteq> [] then Some (s\<lparr>p2c := drop 127 (p2c s), cpc := CReply (take 127 (p2c s))\<rparr>)
           else if p2c_open s then None
           else Some (s\<lparr>cpc := CGone\<rparr>))
      | CReply buffer \<Rightarrow>
          (case send_reply (processed_text pid buffer) of
             Inl h \<Rightarrow> Some (s\<lparr>cpc := CDied h\<rparr>)
           | Inr bytes \<Rightarrow>
               (case dpc s of
                  DDie h \<Rightarrow> Some (s\<lparr>cpc := CDied (Killed ''SIGPIPE'')\<rparr>)
                | _ \<Rightarrow> Some (s\<lparr>c2p := c2p s @ bytes, cpc := CRead\<rparr>)))
      | _ \<Rightarrow> None)"

text \<open>
  When the child has died \<open>poll\<close> reports the end of the data and \<open>read\<close> returns 0; no call has
  failed before, so that \<open>errno\<close> is 0.
\<close>

definition child_exited :: "duplex \<Rightarrow> bool" where
  "child_exited s \<longleftrightarrow> (case cpc s of CGone \<Rightarrow> True | CDied h \<Rightarrow> True | _ \<Rightarrow> False)"

definition duplex_parent :: "duplex \<Rightarrow> duplex option" where
  "duplex_parent s =
     (case dpc s of
        DWrite i \<Rightarrow>
          Some (if child_exited s then s\<lparr>p2c_open := False, dpc := DDie (Killed ''SIGPIPE'')\<rparr>
                else s\<lparr>p2c := p2c s @ requests ! i, dpc := DPoll i\<rparr>)
      | DPoll i \<Rightarrow> if c2p s \<noteq> [] \<or> child_exited s then Some (s\<lparr>dpc := DRead i\<rparr>) else None
      | DRead i \<Rightarrow>
          Some (if c2p s = []
                then s\<lparr>p2c_open := False, dpc := DDie (Exit 1 (''error: read reply: Success'' @ [newline]))\<rparr>
                else s\<lparr>dout := dout s @ cstring (take 159 (c2p s)), c2p := drop 159 (c2p s),
                  dpc := (if i + 1 < length requests then DWrite (i + 1) else DClose)\<rparr>)
      | DClose \<Rightarrow> Some (s\<lparr>p2c_open := False, dpc := DReap\<rparr>)
      | DReap \<Rightarrow> if child_exited s then Some (s\<lparr>dpc := DExit\<rparr>) else None
      | _ \<Rightarrow> None)"

text \<open>
  The failures: \<open>poll\<close> times out or is interrupted, a \<open>read\<close> of the parent fails, and one of the child, which leaves its loop
  as at the end of the data.
\<close>

datatype duplex_act = DParent | DChild | DPollFails | DReadFails errno | DChildFails

fun duplex_nxt :: "int \<Rightarrow> duplex_act \<Rightarrow> duplex \<Rightarrow> duplex option" where
  "duplex_nxt pid DParent s = duplex_parent s"
| "duplex_nxt pid DChild s = child_loop pid s"
| "duplex_nxt pid DPollFails s =
     (case dpc s of
        DPoll i \<Rightarrow> Some (s\<lparr>p2c_open := False, dpc := DDie (die ''poll timed out waiting for child'')\<rparr>)
      | _ \<Rightarrow> None)"
| "duplex_nxt pid (DReadFails e) s =
     (case dpc s of
        DRead i \<Rightarrow> Some (s\<lparr>p2c_open := False, dpc := DDie (die_errno ''read reply'' e)\<rparr>)
      | _ \<Rightarrow> None)"
| "duplex_nxt pid DChildFails s = (if cpc s = CRead then Some (s\<lparr>cpc := CGone\<rparr>) else None)"

definition duplex_setup :: "errno option \<Rightarrow> errno option \<Rightarrow> errno option \<Rightarrow> duplex res" where
  "duplex_setup first_pipe second_pipe fork_res =
     (case (case first_pipe of Some e \<Rightarrow> Some e | None \<Rightarrow> second_pipe) of
        Some e \<Rightarrow> Inl (die_errno ''pipe'' e)
      | None \<Rightarrow>
          (case fork_res of
             Some e \<Rightarrow> Inl (die_errno ''fork'' e)
           | None \<Rightarrow> Inr \<lparr>p2c = [], p2c_open = True, c2p = [], dpc = DWrite 0, cpc = CRead, dout = []\<rparr>))"

text \<open>
  Without a failure exactly one of the two can move at every moment: five steps for each of the three
  requests, and three at the end.
\<close>

definition duplex_round :: "int \<Rightarrow> nat \<Rightarrow> nat \<Rightarrow> duplex" where
  "duplex_round pid i j =
     \<lparr>p2c = (if j = 1 then requests ! i else []), p2c_open = True,
      c2p = (if j = 3 \<or> j = 4 then processed_text pid (requests ! i) else []),
      dpc = (if j = 0 then DWrite i else if j = 4 then DRead i else DPoll i),
      cpc = (if j = 2 then CReply (requests ! i) else CRead),
      dout = concat (map (processed_text pid) (take i requests))\<rparr>"

definition duplex_end :: "int \<Rightarrow> nat \<Rightarrow> duplex" where
  "duplex_end pid j =
     \<lparr>p2c = [], p2c_open = (j = 0), c2p = [], dpc = (if j = 0 then DClose else if j = 3 then DExit else DReap),
      cpc = (if j \<le> 1 then CRead else CGone), dout = concat (map (processed_text pid) requests)\<rparr>"

definition duplex_at :: "int \<Rightarrow> nat \<Rightarrow> duplex" where
  "duplex_at pid k = (if k < 15 then duplex_round pid (k div 5) (k mod 5) else duplex_end pid (k - 15))"

definition duplex_who :: "nat \<Rightarrow> duplex_act" where
  "duplex_who k = (if k < 15 \<and> k mod 5 \<in> {1, 2} \<or> k = 16 then DChild else DParent)"

definition duplex_clean :: "duplex_act \<Rightarrow> bool" where
  "duplex_clean a \<longleftrightarrow> a = DParent \<or> a = DChild"

text \<open>With a process number of at most ten digits every reply fits the buffers of both sides.\<close>

lemma reply_fits:
  assumes "0 \<le> pid" and "pid < 10 ^ 10" and "length buffer \<le> 127"
  shows "length (processed_text pid buffer) \<le> 159"
proof -
  have "nat pid < 10 ^ 10" using assms(1,2) by (simp add: nat_less_iff)
  then have "length (digits (nat pid)) \<le> 10" by (rule length_digits) simp
  then have "length (fmt_d pid) \<le> 10" using assms(1) by (simp add: fmt_d_def)
  then show ?thesis using length_cstring [of buffer] assms(3) by (simp add: processed_text_def)
qed

lemma send_reply_fits: "length txt \<le> 159 \<Longrightarrow> send_reply txt = Inr txt"
  by (simp add: send_reply_def snprintf_def)

lemma digits_no_nul: "CHR 0x00 \<notin> set (digits n)"
proof (induction n rule: digits.induct)
  case (1 n)
  have "CHR 0x00 \<noteq> digit m" if "m < 10" for m
    using that by (auto simp: digit_def nth_Cons' )
  then show ?case using 1 by (subst digits.simps) (auto simp: ac_simps)
qed

lemma reply_no_nul: "CHR 0x00 \<notin> set (processed_text pid buffer)"
  using digits_no_nul cstring_no_nul [of buffer] by (auto simp: processed_text_def fmt_d_def)

lemma request_facts:
  assumes "i < 3"
  shows "requests ! i \<noteq> []" "length (requests ! i) \<le> 127" "length requests = 3"
proof -
  have "i = 0 \<or> i = 1 \<or> i = 2" using assms by linarith
  then show "requests ! i \<noteq> []" "length (requests ! i) \<le> 127" by (auto simp: requests_def)
qed (simp add: requests_def)

lemmas duplex_defs = duplex_round_def duplex_end_def duplex_parent_def child_loop_def child_exited_def

lemma duplex_round_steps:
  assumes "i < 3" and "j < 5" and "0 \<le> pid" and "pid < 10 ^ 10" and "duplex_clean a"
  shows "duplex_nxt pid a (duplex_round pid i j) =
    (if a \<noteq> (if j \<in> {1, 2} then DChild else DParent) then None
     else Some (if j < 4 then duplex_round pid i (Suc j)
                else if i < 2 then duplex_round pid (Suc i) 0 else duplex_end pid 0))"
proof -
  note r = request_facts [OF assms(1)]
  note f = reply_fits [OF assms(3,4) r(2)]
  have ne: "processed_text pid (requests ! i) \<noteq> []" by (simp add: processed_text_def)
  have out: "concat (map (processed_text pid) (take (Suc i) requests))
      = concat (map (processed_text pid) (take i requests)) @ processed_text pid (requests ! i)"
    using assms(1) r(3) by (simp add: take_Suc_conv_app_nth)
  have last: "concat (map (processed_text pid) (take i requests)) @ processed_text pid (requests ! i)
      = concat (map (processed_text pid) requests)" if "\<not> i < 2"
    using that assms(1) r(3) out [symmetric] by simp
  have "j = 0 \<or> j = 1 \<or> j = 2 \<or> j = 3 \<or> j = 4" using assms(2) by linarith
  moreover have "a = DParent \<or> a = DChild" using assms(5) by (cases a) (auto simp: duplex_clean_def)
  moreover have "Suc i < length requests \<longleftrightarrow> i < 2" using r(3) by auto
  ultimately show ?thesis
    by (elim disjE)
      (simp_all add: duplex_defs r(1,2) ne f out last send_reply_fits [OF f] cstring_id [OF reply_no_nul])
qed

lemma duplex_end_steps:
  assumes "j < 4" and "duplex_clean a"
  shows "duplex_nxt pid a (duplex_end pid j) =
    (if j = 3 \<or> a \<noteq> (if j = 1 then DChild else DParent) then None else Some (duplex_end pid (Suc j)))"
proof -
  have "j = 0 \<or> j = 1 \<or> j = 2 \<or> j = 3" using assms(1) by linarith
  then show ?thesis using assms(2) by (elim disjE; cases a) (auto simp: duplex_defs duplex_clean_def)
qed

lemma duplex_at_round: "i < 3 \<Longrightarrow> j < 5 \<Longrightarrow> duplex_at pid (5 * i + j) = duplex_round pid i j"
  by (simp add: duplex_at_def)

lemma duplex_at_end: "duplex_at pid (15 + j) = duplex_end pid j"
  by (simp add: duplex_at_def)

lemma duplex_who_round: "i < 3 \<Longrightarrow> j < 5 \<Longrightarrow> duplex_who (5 * i + j) = (if j \<in> {1, 2} then DChild else DParent)"
  by (simp add: duplex_who_def)

lemma duplex_at_next:
  assumes "i < 3" and "j < 5"
  shows "duplex_at pid (Suc (5 * i + j)) =
    (if j < 4 then duplex_round pid i (Suc j)
     else if i < 2 then duplex_round pid (Suc i) 0 else duplex_end pid 0)"
proof (cases "j < 4")
  case True
  then show ?thesis using duplex_at_round [of i "Suc j" pid] assms by simp
next
  case False
  then have s: "Suc (5 * i + j) = 5 * Suc i + 0" using assms(2) by simp
  show ?thesis
  proof (cases "i < 2")
    case True
    then show ?thesis using duplex_at_round [of "Suc i" 0 pid] s False by simp
  next
    case i: False
    then have "Suc (5 * i + j) = 15 + 0" using s assms(1) by simp
    then show ?thesis using duplex_at_end [of pid 0] i False by simp
  qed
qed

lemma duplex_chain:
  assumes "0 \<le> pid" and "pid < 10 ^ 10" and "k < 18"
  shows "only duplex_clean (duplex_nxt pid) a (duplex_at pid k)
    = (if a = duplex_who k then Some (duplex_at pid (Suc k)) else None)"
proof (cases "k < 15")
  case True
  define i j where "i = k div 5" and "j = k mod 5"
  have k: "k = 5 * i + j" "i < 3" "j < 5" using True by (auto simp: i_def j_def)
  have who: "duplex_clean (duplex_who k)" by (simp add: duplex_clean_def duplex_who_def)
  show ?thesis
  proof (cases "duplex_clean a")
    case True
    then show ?thesis
      using duplex_round_steps [OF k(2,3) assms(1,2) True]
      by (simp add: only_def k(1) duplex_at_round [OF k(2,3)] duplex_at_next [OF k(2,3)] duplex_who_round [OF k(2,3)])
  next
    case False
    then show ?thesis using who by (auto simp: only_def)
  qed
next
  case False
  then obtain j where k: "k = 15 + j" "j < 3" using assms(3) that [of "k - 15"] by simp
  have "duplex_at pid (Suc k) = duplex_end pid (Suc j)" using duplex_at_end [of pid "Suc j"] k by simp
  moreover have "duplex_who k = (if j = 1 then DChild else DParent)" using k by (simp add: duplex_who_def)
  ultimately show ?thesis
    using duplex_end_steps [of j a pid] k by (auto simp: only_def duplex_at_end duplex_clean_def)
qed

text \<open>The process numbers of at most ten digits, as an index of the interpretation.\<close>

definition pid_of :: "nat \<Rightarrow> int" where
  "pid_of n = int n mod 10 ^ 10"

lemma pid_of_range: "0 \<le> pid_of n" "pid_of n < 10 ^ 10"
  by (simp_all add: pid_of_def)

interpretation duplex: linear_system "only duplex_clean (duplex_nxt (pid_of n))" "duplex_at (pid_of n)" duplex_who 18
  for n :: nat
proof unfold_locales
  show "only duplex_clean (duplex_nxt (pid_of n)) a (duplex_at (pid_of n) 18) = None" for a
    using duplex_end_steps [of 3 a "pid_of n"] duplex_at_end [of "pid_of n" 3] by (simp add: only_def)
qed (rule duplex_chain [OF pid_of_range])

lemma duplex_setup_at: "duplex_setup None None None = Inr (duplex_at pid 0)"
  by (simp add: duplex_setup_def duplex_at_def duplex_round_def)

lemma pid_of_id: "0 \<le> pid \<Longrightarrow> pid < 10 ^ 10 \<Longrightarrow> pid_of (nat pid) = pid"
  by (simp add: pid_of_def)

subsection \<open>The pipe to another program\<close>

text \<open>
  \<open>tr\<close> is not part of the repository: \<open>filter_prog\<close> gives its output for its whole input. The parent writes
  to a pipe whose only reader is the child; when the child could not start the program and has exited, the
  write raises \<open>SIGPIPE\<close>. \<open>write_res\<close> is another error of the write.
\<close>

datatype pipeline_pc = LWrite | LClose | LReap | LExit | LKilled | LDied halt
datatype filter_pc = FDup | FExec | FRead string | FGone | FFailed halt

record pipeline =
  lpipe :: string
  lopen :: bool \<comment> \<open>the parent's writing end\<close>
  lpc :: pipeline_pc
  fpc :: filter_pc
  lout :: string

definition payload :: string where
  "payload = ''kernel pipes feed child process standard input'' @ [newline]"

definition reader_gone :: "pipeline \<Rightarrow> bool" where
  "reader_gone s \<longleftrightarrow> (case fpc s of FGone \<Rightarrow> True | FFailed h \<Rightarrow> True | _ \<Rightarrow> False)"

definition pipeline_parent :: "errno option \<Rightarrow> pipeline \<Rightarrow> pipeline option" where
  "pipeline_parent write_res s =
     (case lpc s of
        LWrite \<Rightarrow>
          Some (if reader_gone s then s\<lparr>lopen := False, lpc := LKilled\<rparr>
                else
                  (case write_res of
                     Some e \<Rightarrow> s\<lparr>lopen := False, lpc := LDied (die_errno ''write pipe'' e)\<rparr>
                   | None \<Rightarrow> s\<lparr>lpipe := lpipe s @ payload, lpc := LClose\<rparr>))
      | LClose \<Rightarrow> Some (s\<lparr>lopen := False, lpc := LReap\<rparr>)
      | LReap \<Rightarrow> if reader_gone s then Some (s\<lparr>lpc := LExit\<rparr>) else None
      | _ \<Rightarrow> None)"

definition pipeline_child ::
    "(string \<Rightarrow> string) \<Rightarrow> errno option \<Rightarrow> errno option \<Rightarrow> pipeline \<Rightarrow> pipeline option" where
  "pipeline_child filter_prog dup_res exec_res s =
     (case fpc s of
        FDup \<Rightarrow>
          (case dup_res of
             Some e \<Rightarrow> Some (s\<lparr>fpc := FFailed (die_errno ''dup2'' e)\<rparr>)
           | None \<Rightarrow> Some (s\<lparr>fpc := FExec\<rparr>))
      | FExec \<Rightarrow>
          (case exec_res of
             Some e \<Rightarrow> Some (s\<lparr>fpc := FFailed (die_errno ''execlp tr'' e)\<rparr>)
           | None \<Rightarrow> Some (s\<lparr>fpc := FRead []\<rparr>))
      | FRead got \<Rightarrow>
          (if lpipe s \<noteq> [] then Some (s\<lparr>lpipe := [], fpc := FRead (got @ lpipe s)\<rparr>)
           else if lopen s then None
           else Some (s\<lparr>lout := lout s @ filter_prog got, fpc := FGone\<rparr>))
      | _ \<Rightarrow> None)"

definition pipeline_nxt ::
    "(string \<Rightarrow> string) \<Rightarrow> errno option \<Rightarrow> errno option \<Rightarrow> errno option \<Rightarrow> bool \<Rightarrow> pipeline \<Rightarrow> pipeline option" where
  "pipeline_nxt filter_prog write_res dup_res exec_res parent s =
     (if parent then pipeline_parent write_res s else pipeline_child filter_prog dup_res exec_res s)"


text \<open>Where the bytes of the payload are, and what the positions of the two say about each other.\<close>

definition parent_stopped :: "pipeline_pc \<Rightarrow> bool" where
  "parent_stopped pc \<longleftrightarrow> (case pc of LKilled \<Rightarrow> True | LDied h \<Rightarrow> True | _ \<Rightarrow> False)"

definition pipeline_sent :: "pipeline \<Rightarrow> string" where
  "pipeline_sent s = (if lpc s = LWrite \<or> parent_stopped (lpc s) then [] else payload)"

definition pipeline_inv ::
    "(string \<Rightarrow> string) \<Rightarrow> errno option \<Rightarrow> errno option \<Rightarrow> errno option \<Rightarrow> pipeline \<Rightarrow> bool" where
  "pipeline_inv filter_prog write_res dup_res exec_res s \<longleftrightarrow>
     (lopen s \<longleftrightarrow> lpc s = LWrite \<or> lpc s = LClose) \<and> (lpc s = LExit \<longrightarrow> reader_gone s)
     \<and> (lpc s = LKilled \<longrightarrow> (\<exists>h. fpc s = FFailed h))
     \<and> (\<forall>h. lpc s = LDied h \<longrightarrow> (\<exists>e. write_res = Some e \<and> h = die_errno ''write pipe'' e))
     \<and> (lpc s \<in> {LClose, LReap, LExit} \<longrightarrow> write_res = None)
     \<and> (case fpc s of
          FDup \<Rightarrow> lpipe s = pipeline_sent s \<and> lout s = []
        | FExec \<Rightarrow> lpipe s = pipeline_sent s \<and> lout s = [] \<and> dup_res = None
        | FRead got \<Rightarrow> got @ lpipe s = pipeline_sent s \<and> lout s = [] \<and> dup_res = None \<and> exec_res = None
        | FGone \<Rightarrow> \<not> lopen s \<and> lout s = filter_prog (pipeline_sent s) \<and> dup_res = None \<and> exec_res = None
        | FFailed h \<Rightarrow>
            lout s = [] \<and> ((\<exists>e. dup_res = Some e \<and> h = die_errno ''dup2'' e)
              \<or> dup_res = None \<and> (\<exists>e. exec_res = Some e \<and> h = die_errno ''execlp tr'' e)))"

definition pipeline_final :: "pipeline \<Rightarrow> bool" where
  "pipeline_final s \<longleftrightarrow> reader_gone s \<and> (lpc s = LExit \<or> parent_stopped (lpc s))"

definition pipeline_rank :: "pipeline \<Rightarrow> nat" where
  "pipeline_rank s =
     (case lpc s of LWrite \<Rightarrow> 6 | LClose \<Rightarrow> 4 | LReap \<Rightarrow> 2 | _ \<Rightarrow> 0)
     + (case fpc s of FDup \<Rightarrow> 3 | FExec \<Rightarrow> 2 | FRead got \<Rightarrow> 1 | _ \<Rightarrow> 0) + (if lpipe s = [] then 0 else 1)"

definition pipeline_start :: pipeline where
  "pipeline_start = \<lparr>lpipe = [], lopen = True, lpc = LWrite, fpc = FDup, lout = []\<rparr>"

lemma payload_nonempty: "payload \<noteq> []"
  by (simp add: payload_def)

lemmas pipeline_step_defs = pipeline_nxt_def pipeline_parent_def pipeline_child_def reader_gone_def
  pipeline_sent_def parent_stopped_def

lemma pipeline_inv_step:
  assumes "pipeline_inv f w d e s" and "pipeline_nxt f w d e p s = Some t"
  shows "pipeline_inv f w d e t"
  using assms payload_nonempty unfolding pipeline_inv_def pipeline_step_defs
  by (cases p; cases "lpc s"; cases "fpc s") (auto split: if_splits option.splits)

lemma pipeline_decreases:
  assumes "pipeline_inv f w d e s" and "pipeline_nxt f w d e p s = Some t"
  shows "pipeline_rank t < pipeline_rank s"
  using assms payload_nonempty unfolding pipeline_step_defs pipeline_rank_def pipeline_inv_def
  by (cases p; cases "lpc s"; cases "fpc s") (auto split: if_splits option.splits)

lemma pipeline_progress:
  assumes "pipeline_inv f w d e s" and "\<not> pipeline_final s"
  shows "\<exists>p t. pipeline_nxt f w d e p s = Some t"
proof -
  have "pipeline_nxt f w d e True s \<noteq> None \<or> pipeline_nxt f w d e False s \<noteq> None"
    using assms unfolding pipeline_inv_def pipeline_final_def pipeline_step_defs
    by (cases "lpc s"; cases "fpc s") (auto split: option.splits)
  then show ?thesis by blast
qed

interpretation pipeline: terminating_system "pipeline_nxt f w d e" pipeline_start "pipeline_inv f w d e"
  pipeline_rank pipeline_final
  for f :: "string \<Rightarrow> string" and w d e :: "errno option"
proof unfold_locales
  show "pipeline_inv f w d e pipeline_start"
    by (simp add: pipeline_inv_def pipeline_start_def pipeline_step_defs)
qed (blast intro: pipeline_inv_step pipeline_decreases pipeline_progress)+


subsection \<open>The copy with splice\<close>

text \<open>
  The file holds what \<open>write_all\<close> wrote, its results being the list \<open>ws\<close>; each \<open>splice\<close> moves at most as many bytes as it is asked to, or fails. The
  result is what appears on the standard output and what remains in the pipe, and whether the file the program made is left behind.
\<close>

datatype splice_res = Moves nat | SpliceErr errno

fun splice :: "splice_res \<Rightarrow> nat \<Rightarrow> string \<Rightarrow> errno + string \<times> string" where
  "splice (SpliceErr e) len src = Inl e"
| "splice (Moves m) len src = Inr (take (min m len) src, drop (min m len) src)"

definition splice_data :: string where
  "splice_data = ''zero-copy splice moves bytes through a pipe buffer'' @ [newline]"

definition splice_main ::
    "errno option \<Rightarrow> write_res list \<Rightarrow> errno option \<Rightarrow> splice_res \<Rightarrow> splice_res
     \<Rightarrow> ((string \<times> string) res \<times> bool) option" where
  "splice_main open_res ws pipe_res first second =
     (case open_res of
        Some e \<Rightarrow> Some (Inl (die_errno ''open source'' e), False)
      | None \<Rightarrow>
          (case write_all ws splice_data (of_nat (length splice_data)) of
             None \<Rightarrow> None
           | Some (n, file, rest) \<Rightarrow>
               (case pipe_res of
                  Some e \<Rightarrow> Some (Inl (die_errno ''pipe'' e), True)
                | None \<Rightarrow>
                    (case splice first 4096 file of
                       Inl e \<Rightarrow> Some (Inl (die_errno ''splice file to pipe'' e), True)
                     | Inr (moved, left) \<Rightarrow>
                         (case splice second (length moved) moved of
                            Inl e \<Rightarrow> Some (Inl (die_errno ''splice pipe to stdout'' e), True)
                          | Inr (out, kept) \<Rightarrow> Some (Inr (out, kept), False))))))"

subsection \<open>Properties\<close>

text \<open>
  C30: Every schedule of the chat in which no call fails has fewer than 40 steps, and each peer prints at every moment a prefix of
  what the other sends. When neither can move any more, each has printed all three messages of the other, and the two have exited
  and the FIFOs are removed exactly when the child needed three reads. A FIFO does not keep messages apart: when
  the child receives two of them in one read, it waits for a fourth message that the parent
  never sends, and the parent, which keeps its writing end open, waits for the child: a deadlock. When the child cannot open
  its FIFO for reading it exits, and the parent waits for a reader for ever.
\<close>

theorem chat_outcomes:
  assumes "chat_setup None None None = Inr s" and "run chat_nxt as s = Some t" and "list_all chat_clean as"
  shows "length as < 40
    \<and> (\<exists>n. concat (a_seen t) = take n (chat_all ''peer-B'')) \<and> (\<exists>n. concat (b_seen t) = take n (chat_all ''peer-A''))
    \<and> (stuck (only chat_clean chat_nxt) t \<longrightarrow>
         concat (a_seen t) = chat_all ''peer-B'' \<and> concat (b_seen t) = chat_all ''peer-A''
         \<and> (if length (b_seen t) = 3 then a_pc t = PGone \<and> b_pc t = PGone \<and> \<not> names t
            else a_pc t = PEnd \<and> b_pc t = PSelect 2 \<and> names t))
    \<and> (\<exists>u. run chat_nxt [ChatFails False e, ChatStep True, ChatStep False] s = Some u
         \<and> b_pc u = PDied True (die_errno ''open fifo'' e) \<and> a_pc u = OpenTx None
         \<and> stuck (only chat_clean chat_nxt) u)"
proof -
  have s: "s = chat_start" using assms(1) by (simp add: chat_setup_def mkfifo_clean_def chat_start_def)
  have r: "run (only chat_clean chat_nxt) as chat_start = Some t"
    using assms(2,3) s by (simp add: run_only list_all_iff)
  have ok: "chat_ok t" using chat.checked_run [OF r] .
  have "concat (a_seen t) = take (length (concat (a_seen t))) (chat_all ''peer-B'')"
    "concat (b_seen t) = take (length (concat (b_seen t))) (chat_all ''peer-A'')"
    using ok unfolding chat_ok_def by simp_all
  then show ?thesis
    using ok chat.run_bound [OF r] chat_open_fails [of e] unfolding chat_ok_def chat.stuck_idle s by blast
qed

text \<open>The schedule in which the child is slow to read its first message.\<close>

definition chat_slow_child :: "chat_act list" where
  "chat_slow_child = map ChatStep
     [True, False, True, False, True, False, True, True, True, False, False, False, True, True, True,
      False, False, False, True, True]"

definition chat_stuck :: chat where
  "chat_stuck =
     \<lparr>to_a = [], to_b = [], a_pc = PEnd, b_pc = PSelect 2,
      a_seen = [chat_message ''peer-B'' 0, chat_message ''peer-B'' 1, chat_message ''peer-B'' 2],
      b_seen = [chat_message ''peer-A'' 0 @ chat_message ''peer-A'' 1, chat_message ''peer-A'' 2], names = True\<rparr>"

lemma chat_slow_run: "run chat_nxt chat_slow_child chat_start = Some chat_stuck"
  by code_simp

lemma chat_stuck_idle: "idle (only chat_clean chat_nxt) chat_acts chat_stuck"
  by code_simp

theorem chat_outcomes_witness:
  "run chat_nxt chat_slow_child chat_start = Some chat_stuck \<and> stuck (only chat_clean chat_nxt) chat_stuck
     \<and> a_pc chat_stuck = PEnd \<and> b_pc chat_stuck = PSelect 2"
proof -
  have "chat_setup None None None = Inr chat_start" by (simp add: chat_setup_def mkfifo_clean_def chat_start_def)
  moreover have "list_all chat_clean chat_slow_child" by (simp add: chat_slow_child_def)
  moreover have "stuck (only chat_clean chat_nxt) chat_stuck" using chat_stuck_idle unfolding chat.stuck_idle .
  ultimately show ?thesis
    using chat_outcomes [OF _ chat_slow_run, of EMFILE] chat_slow_run by (simp add: chat_stuck_def)
qed

text \<open>
  C31: For a process number of at most ten digits the reply to any request of up to 127 bytes fits
  the buffers of the child and of the parent. Unless a poll or a read fails, every
  schedule has at most 18 steps and leads to the end of both processes, with the three replies
  printed in order and nothing left in the pipes; what is printed at any moment is the replies to the first requests.
\<close>

theorem duplex_replies:
  assumes "0 \<le> pid" and "pid < 10 ^ 10" and "duplex_setup None None None = Inr s"
    and "run (duplex_nxt pid) as s = Some t" and "list_all duplex_clean as"
  shows "(length buffer \<le> 127 \<longrightarrow> send_reply (processed_text pid buffer) = Inr (processed_text pid buffer))
    \<and> length as \<le> 18 \<and> (\<exists>i. dout t = concat (map (processed_text pid) (take i requests)))
    \<and> (\<exists>bs u. run (duplex_nxt pid) (as @ bs) s = Some u \<and> dpc u = DExit \<and> cpc u = CGone
         \<and> p2c u = [] \<and> c2p u = [] \<and> dout u = concat (map (processed_text pid) requests))"
proof -
  define n where "n = nat pid"
  have p: "pid = pid_of n" using pid_of_id [OF assms(1,2)] by (simp add: n_def)
  have s: "s = duplex_at pid 0" using assms(3) duplex_setup_at [of pid] by simp
  have "\<forall>a \<in> set as. duplex_clean a" using assms(5) by (simp add: list_all_iff)
  then have r: "run (only duplex_clean (duplex_nxt (pid_of n))) as (duplex_at (pid_of n) 0) = Some t"
    using assms(4) s p by (simp add: run_only)
  have t: "length as \<le> 18" "t = duplex_at pid (length as)" using duplex.run_state [OF r] p by auto
  have "\<exists>i. dout t = concat (map (processed_text pid) (take i requests))"
    unfolding t(2) duplex_at_def duplex_round_def duplex_end_def
    by (cases "length as < 15") (auto intro: exI [of _ "length requests"])
  moreover obtain bs where "run (only duplex_clean (duplex_nxt pid)) (as @ bs) s = Some (duplex_at pid 18)"
    using duplex.run_ends [OF r] p s by auto
  then have "run (duplex_nxt pid) (as @ bs) s = Some (duplex_at pid 18)" by (rule run_only_run)
  ultimately show ?thesis
    using t(1) send_reply_fits [OF reply_fits [OF assms(1,2)]] by (fastforce simp: duplex_at_def duplex_end_def)
qed

theorem duplex_replies_witness:
  "\<exists>bs u. run (duplex_nxt 2118) ([] @ bs) (duplex_at 2118 0) = Some u
     \<and> dout u = concat (map (processed_text 2118) requests)"
proof -
  have "run (duplex_nxt 2118) [] (duplex_at 2118 0) = Some (duplex_at 2118 0)" by simp
  from duplex_replies [OF _ _ duplex_setup_at this, of "[]"] show ?thesis by auto
qed



text \<open>The copy: what is printed and what stays in the pipe are together the bytes moved, a prefix of the data.\<close>

lemma splice_moved: "splice r len src = Inr (moved, left) \<Longrightarrow> moved @ left = src"
  by (cases r) auto

lemma splice_prefix:
  assumes "splice_main open_res ws pipe_res first second = Some (Inr (out, kept), left_behind)"
  shows "(\<exists>n. out @ kept = take n splice_data) \<and> \<not> left_behind"
proof -
  from assms obtain n bs rest moved left where
    w: "write_all ws splice_data (of_nat (length splice_data)) = Some (n, bs, rest)"
    and m: "splice first 4096 bs = Inr (moved, left)" "splice second (length moved) moved = Inr (out, kept)"
    and "\<not> left_behind"
    by (auto simp: splice_main_def split: option.splits sum.splits)
  have "bs = (out @ kept) @ left" using splice_moved [OF m(1)] splice_moved [OF m(2)] by simp
  then have "out @ kept = take (length (out @ kept)) bs" by simp
  moreover have "unat (of_nat (length splice_data) :: size_t) \<le> length splice_data"
    by (rule eq_refl, rule unat_of_nat_size) (simp add: splice_data_def)
  from write_all_sound [OF w this] have "\<exists>k. bs = take k splice_data" by blast
  ultimately have "\<exists>n. out @ kept = take n splice_data" by (metis take_take)
  then show ?thesis using \<open>\<not> left_behind\<close> by blast
qed

end
