(* ===== verification/SocketPrograms.thy ===== *)
theory SocketPrograms
  imports Common
begin

text \<open>
  The programs of \<open>Sockets/\<close> besides the calculator: a descriptor passed over a socket pair
  (\<open>socketpair_fd_passing.c\<close>), the datagram logger (\<open>unix_dgram_logger.c\<close>) and addresses in the abstract
  namespace (\<open>abstract_namespace_ping.c\<close>). The server with \<open>epoll\<close> has its own theory.
\<close>

subsection \<open>Integers in control messages\<close>

text \<open>The bytes of an integer, least significant first, as on x86-64.\<close>

fun le_bytes :: "nat \<Rightarrow> nat \<Rightarrow> nat list" where
  "le_bytes 0 n = []"
| "le_bytes (Suc k) n = n mod 256 # le_bytes k (n div 256)"

fun le_val :: "nat list \<Rightarrow> nat" where
  "le_val [] = 0"
| "le_val (b # bs) = b + 256 * le_val bs"

definition int_bytes :: "int \<Rightarrow> nat list" where
  "int_bytes i = le_bytes 4 (unat (word_of_int i :: 32 word))"

definition bytes_int :: "nat list \<Rightarrow> int" where
  "bytes_int bs = sint (of_nat (le_val bs) :: 32 word)"

lemma le_bytes_numeral [simp]:
  "le_bytes (numeral k) n = n mod 256 # le_bytes (pred_numeral k) (n div 256)"
  by (simp only: numeral_eq_Suc [of k] le_bytes.simps)

lemma length_le_bytes [simp]: "length (le_bytes k n) = k"
  by (induction k arbitrary: n) auto

lemma le_val_bytes: "n < 256 ^ k \<Longrightarrow> le_val (le_bytes k n) = n"
proof (induction k arbitrary: n)
  case (Suc k)
  have "n div 256 < 256 ^ k" using Suc.prems by (simp add: less_mult_imp_div_less mult.commute)
  then show ?case using Suc.IH by simp
qed simp

lemma int_bytes_round_trip: "in_int i \<Longrightarrow> bytes_int (int_bytes i) = i"
proof -
  assume i: "in_int i"
  have "unat (word_of_int i :: 32 word) < 256 ^ 4"
    using unsigned_less [of "word_of_int i :: 32 word", where 'a = nat] by simp
  then have "bytes_int (int_bytes i) = sint (word_of_int i :: 32 word)"
    by (simp add: bytes_int_def int_bytes_def le_val_bytes)
  then show ?thesis
    using i by (simp add: sint_sbintrunc' in_int_def INT_MAX_def signed_take_bit_int_eq_self)
qed

subsection \<open>Passing a descriptor\<close>

text \<open>
  The control message that \<open>send_fd\<close> builds: \<open>cmsg_len\<close>, \<open>cmsg_level\<close>, \<open>cmsg_type\<close> and the number of
  the descriptor, in a zeroed array of \<open>CMSG_SPACE (sizeof (int))\<close> = 24 bytes of which
  \<open>CMSG_LEN (sizeof (int))\<close> = 20 are sent.
\<close>

definition SOL_SOCKET :: nat where
  "SOL_SOCKET = 1"

definition SCM_RIGHTS :: nat where
  "SCM_RIGHTS = 1"

definition rights_header :: "nat list" where
  "rights_header = le_bytes 8 20 @ le_bytes 4 SOL_SOCKET @ le_bytes 4 SCM_RIGHTS"

definition rights_control :: "int \<Rightarrow> nat list" where
  "rights_control fd = take 20 (rights_header @ int_bytes fd @ replicate 4 0)"

text \<open>
  The kernel reads the numbers out of the message and looks the open files up in the table of the sender. A message in
  transit carries its bytes and the open files.
\<close>

definition scm_fd :: "nat list \<Rightarrow> errno + int option" where
  "scm_fd control =
     (if length control < 16 then Inr None
      else
        (let len = le_val (take 8 control) in
         if len < 16 \<or> length control < len \<or> le_val (take 4 (drop 8 control)) \<noteq> SOL_SOCKET
           \<or> le_val (take 4 (drop 12 control)) \<noteq> SCM_RIGHTS then Inl EINVAL
         else if len < 20 then Inr None
         else Inr (Some (bytes_int (take 4 (drop 16 control))))))"

definition sendmsg :: "'o fdtab \<Rightarrow> string \<Rightarrow> nat list \<Rightarrow> errno + string \<times> 'o option" where
  "sendmsg tab bytes control =
     (case scm_fd control of
        Inl e \<Rightarrow> Inl e
      | Inr None \<Rightarrow> Inr (bytes, None)
      | Inr (Some fd) \<Rightarrow> (case tab fd of None \<Rightarrow> Inl EBADF | Some f \<Rightarrow> Inr (bytes, Some f)))"

text \<open>\<open>fault\<close> is an error of the call that does not come from the message.\<close>

definition send_fd :: "'o fdtab \<Rightarrow> errno option \<Rightarrow> int \<Rightarrow> (string \<times> 'o option) res" where
  "send_fd tab fault fd =
     (case (case fault of Some e \<Rightarrow> Inl e | None \<Rightarrow> sendmsg tab ''F'' (rights_control fd)) of
        Inl e \<Rightarrow> Inl (die_errno ''sendmsg'' e)
      | Inr m \<Rightarrow> Inr m)"

text \<open>
  The receiver gets the open file under the lowest number that is free in its table, below the limit
  on open files, and the number in a control message. The control message is missing at the end of
  the data, for a message without a descriptor, and when no number is free.
\<close>

definition lowest_free :: "nat \<Rightarrow> 'o fdtab \<Rightarrow> int option" where
  "lowest_free limit tab = map_option int (List.find (\<lambda>n. tab (int n) = None) [0..<limit])"

definition recvmsg ::
    "nat \<Rightarrow> 'o fdtab \<Rightarrow> (string \<times> 'o option) option \<Rightarrow> string \<times> nat list \<times> 'o fdtab" where
  "recvmsg limit tab msg =
     (case msg of
        None \<Rightarrow> ([], [], tab)
      | Some (bytes, None) \<Rightarrow> (bytes, [], tab)
      | Some (bytes, Some f) \<Rightarrow>
          (case lowest_free limit tab of
             None \<Rightarrow> (bytes, [], tab)
           | Some fd \<Rightarrow> (bytes, rights_header @ int_bytes fd, tab(fd \<mapsto> f))))"

text \<open>\<open>CMSG_FIRSTHDR\<close> is null without a control message, and the program then copies from behind the null pointer.\<close>

definition recv_fd ::
    "nat \<Rightarrow> 'o fdtab \<Rightarrow> errno option \<Rightarrow> (string \<times> 'o option) option \<Rightarrow> (int \<times> 'o fdtab) res" where
  "recv_fd limit tab recvmsg_res msg =
     (case recvmsg_res of
        Some e \<Rightarrow> Inl (die_errno ''recvmsg'' e)
      | None \<Rightarrow>
          (case recvmsg limit tab msg of
             (bytes, control, tab') \<Rightarrow>
               if length control < 16 then Inl (Undef ''access through a null pointer'')
               else Inr (bytes_int (take 4 (drop 16 control)), tab')))"

text \<open>
  The program: the parent's table has the two sockets and the file, the child starts with a copy of it. The
  result is what the child prints, or how it stops, how the parent ends, and whether the file it made is left behind. The
  parent waits for the child, which has ended then, however it ended, before it closes its descriptors.
\<close>

datatype open_file = SocketA | SocketB | Temp_file | Other_file

definition passed_text :: string where
  "passed_text = ''descriptor passed over unix socket'' @ [newline]"

definition passing_child ::
    "nat \<Rightarrow> open_file fdtab \<Rightarrow> int \<Rightarrow> errno option \<Rightarrow> errno option \<Rightarrow> (string \<times> open_file option) option
     \<Rightarrow> string \<Rightarrow> string res" where
  "passing_child limit tab sv0 recvmsg_res read_res msg contents =
     (case xclose tab sv0 None of
        (Inl h, tab1) \<Rightarrow> Inl h
      | (Inr _, tab1) \<Rightarrow>
          (case recv_fd limit tab1 recvmsg_res msg of
             Inl h \<Rightarrow> Inl h
           | Inr (received, tab2) \<Rightarrow>
               (case sys_read 127
                       (case read_res of
                          Some e \<Rightarrow> RdErr e
                        | None \<Rightarrow> if tab2 received = Some Temp_file then Avail contents else RdErr EBADF) of
                  (n, bytes) \<Rightarrow>
                    (case terminate_at 128 bytes n of
                       Inl h \<Rightarrow> Inl h
                     | Inr buf \<Rightarrow> Inr (''child read from received fd: '' @ buf)))))"

definition passing_parent ::
    "open_file fdtab \<Rightarrow> int \<Rightarrow> int \<Rightarrow> int \<Rightarrow> errno option
     \<Rightarrow> unit res \<times> (string \<times> open_file option) option \<times> bool" where
  "passing_parent tab sv0 sv1 fd sendmsg_res =
     (case xclose tab sv1 None of
        (Inl h, tab1) \<Rightarrow> (Inl h, None, True)
      | (Inr _, tab1) \<Rightarrow>
          (case send_fd tab1 sendmsg_res fd of
             Inl h \<Rightarrow> (Inl h, None, True)
           | Inr m \<Rightarrow>
               (case xclose tab1 fd None of
                  (Inl h, tab2) \<Rightarrow> (Inl h, Some m, True)
                | (Inr _, tab2) \<Rightarrow>
                    (case xclose tab2 sv0 None of
                       (Inl h, tab3) \<Rightarrow> (Inl h, Some m, True)
                     | (Inr _, tab3) \<Rightarrow> (Inr (), Some m, False)))))"

definition passing_main ::
    "nat \<Rightarrow> open_file fdtab \<Rightarrow> errno + int \<times> int \<Rightarrow> errno + int \<Rightarrow> write_res list \<Rightarrow> errno option
     \<Rightarrow> errno option \<Rightarrow> errno option \<Rightarrow> errno option \<Rightarrow> ((string res \<times> unit res) res \<times> bool) option" where
  "passing_main limit tab socketpair_res open_res ws fork_res sendmsg_res recvmsg_res read_res =
     (case socketpair_res of
        Inl e \<Rightarrow> Some (Inl (die_errno ''socketpair'' e), False)
      | Inr (sv0, sv1) \<Rightarrow>
          (case open_res of
             Inl e \<Rightarrow> Some (Inl (die_errno ''open'' e), False)
           | Inr fd \<Rightarrow>
               (case write_all ws passed_text 35 of
                  None \<Rightarrow> None
                | Some (n, contents, rest) \<Rightarrow>
                    (case fork_res of
                       Some e \<Rightarrow> Some (Inl (die_errno ''fork'' e), True)
                     | None \<Rightarrow>
                         (let tab1 = tab(sv0 \<mapsto> SocketA, sv1 \<mapsto> SocketB, fd \<mapsto> Temp_file)
                          in case passing_parent tab1 sv0 sv1 fd sendmsg_res of
                               (parent, msg, left) \<Rightarrow>
                                 Some (Inr (passing_child limit tab1 sv0 recvmsg_res read_res msg contents, parent),
                                       left))))))"

lemma length_rights_header [simp]: "length rights_header = 16"
  by (simp add: rights_header_def)

lemma length_int_bytes [simp]: "length (int_bytes i) = 4"
  by (simp add: int_bytes_def)

lemma rights_header_parts:
  "le_val (take 8 (rights_header @ bs)) = 20" "le_val (take 4 (drop 8 (rights_header @ bs))) = SOL_SOCKET"
  "le_val (take 4 (drop 12 (rights_header @ bs))) = SCM_RIGHTS" "drop 16 (rights_header @ bs) = bs"
  by (simp_all add: rights_header_def SOL_SOCKET_def SCM_RIGHTS_def)

lemma rights_control_bytes: "rights_control fd = rights_header @ int_bytes fd"
  by (simp add: rights_control_def)

lemma scm_fd_rights: "in_int fd \<Longrightarrow> scm_fd (rights_control fd) = Inr (Some fd)"
  by (simp add: scm_fd_def rights_control_bytes rights_header_parts int_bytes_round_trip Let_def
      del: drop_append take_append)

lemma send_fd_open: "in_int fd \<Longrightarrow> tab fd = Some f \<Longrightarrow> send_fd tab None fd = Inr (''F'', Some f)"
  by (simp add: send_fd_def sendmsg_def scm_fd_rights)

lemma lowest_free_Some:
  assumes "lowest_free limit tab = Some r"
  shows "0 \<le> r" "r < int limit" "tab r = None"
proof -
  obtain n where "List.find (\<lambda>n. tab (int n) = None) [0..<limit] = Some n" and r: "r = int n"
    using assms by (auto simp: lowest_free_def)
  then have "n \<in> set [0..<limit] \<and> tab (int n) = None" by (auto simp: find_Some_iff)
  then show "0 \<le> r" "r < int limit" "tab r = None" using r by auto
qed

lemma lowest_free_exists: "tab fd = None \<Longrightarrow> 0 \<le> fd \<Longrightarrow> fd < int limit \<Longrightarrow> \<exists>r. lowest_free limit tab = Some r"
proof -
  assume "tab fd = None" "0 \<le> fd" "fd < int limit"
  then have "nat fd \<in> set [0..<limit]" "tab (int (nat fd)) = None" by auto
  then have "List.find (\<lambda>n. tab (int n) = None) [0..<limit] \<noteq> None" by (auto simp: find_None_iff)
  then show ?thesis by (auto simp: lowest_free_def)
qed

lemma recv_fd_passed:
  assumes "lowest_free limit tab = Some r" and "limit \<le> 2 ^ 31"
  shows "recv_fd limit tab None (Some (bytes, Some f)) = Inr (r, tab(r \<mapsto> f))"
proof -
  have "in_int r" using lowest_free_Some [OF assms(1)] assms(2) by (simp add: in_int_def INT_MAX_def)
  then show ?thesis
    by (simp add: recv_fd_def recvmsg_def assms(1) rights_header_parts int_bytes_round_trip
        del: drop_append)
qed

subsection \<open>The datagram logger\<close>

text \<open>
  A datagram keeps its boundaries; a \<open>sendto\<close> waits while more than ten datagrams are queued. The server's
  socket is open in both processes.
\<close>

datatype send_pc = GSend nat | GReap | GUnlink | GExit
datatype recv_pc = HRecv nat | HFlush | HGone | HDied halt

record dgram =
  dqueue :: "string list"
  gpc :: send_pc
  hpc :: recv_pc
  dlog :: "string list" \<comment> \<open>lines of the logger\<close>
  dpaths :: bool

definition event_line :: "nat \<Rightarrow> string" where
  "event_line i = fst (snprintf 64 (''event='' @ fmt_d (int i + 1) @ '' source=client'' @ [newline]))"

definition dgram_parent :: "dgram \<Rightarrow> dgram option" where
  "dgram_parent s =
     (case gpc s of
        GSend i \<Rightarrow>
          (if i < 3 then
             (if 10 < length (dqueue s) then None
              else Some (s\<lparr>dqueue := dqueue s @ [event_line i], gpc := GSend (i + 1)\<rparr>))
           else Some (s\<lparr>gpc := GReap\<rparr>))
      | GReap \<Rightarrow>
          (case hpc s of
             HGone \<Rightarrow> Some (s\<lparr>gpc := GUnlink\<rparr>)
           | HDied h \<Rightarrow> Some (s\<lparr>gpc := GUnlink\<rparr>)
           | _ \<Rightarrow> None)
      | GUnlink \<Rightarrow> Some (s\<lparr>dpaths := False, gpc := GExit\<rparr>)
      | GExit \<Rightarrow> None)"

definition dgram_child :: "dgram \<Rightarrow> dgram option" where
  "dgram_child s =
     (case hpc s of
        HRecv i \<Rightarrow>
          (if i < 3 then
             (case dqueue s of
                [] \<Rightarrow> None
              | d # ds \<Rightarrow>
                  Some (s\<lparr>dqueue := ds, dlog := dlog s @ [''logger received: '' @ cstring (take 127 d)],
                          hpc := HRecv (i + 1)\<rparr>))
           else Some (s\<lparr>hpc := HFlush\<rparr>))
      | HFlush \<Rightarrow> Some (s\<lparr>hpc := HGone\<rparr>)
      | _ \<Rightarrow> None)"

text \<open>
  The failures of \<open>sendto\<close> and \<open>recv\<close>, which are not tested: the event is lost, and the logger stores at index \<open>-1\<close>.
\<close>

datatype dgram_act = GStep | HStep | GSendFails | HRecvFails

fun dgram_nxt :: "dgram_act \<Rightarrow> dgram \<Rightarrow> dgram option" where
  "dgram_nxt GStep s = dgram_parent s"
| "dgram_nxt HStep s = dgram_child s"
| "dgram_nxt GSendFails s =
     (case gpc s of GSend i \<Rightarrow> if i < 3 then Some (s\<lparr>gpc := GSend (i + 1)\<rparr>) else None | _ \<Rightarrow> None)"
| "dgram_nxt HRecvFails s =
     (case hpc s of
        HRecv i \<Rightarrow>
          if i < 3 then
            (case terminate_at 128 [] (-1) of Inl h \<Rightarrow> Some (s\<lparr>hpc := HDied h\<rparr>) | Inr line \<Rightarrow> None)
          else None
      | _ \<Rightarrow> None)"

definition dgram_acts :: "dgram_act list" where
  "dgram_acts = [GStep, HStep, GSendFails, HRecvFails]"

fun dgram_clean :: "dgram_act \<Rightarrow> bool" where
  "dgram_clean GSendFails = False"
| "dgram_clean HRecvFails = False"
| "dgram_clean a = True"

definition bind_unix :: "errno option \<Rightarrow> unit res" where
  "bind_unix bind_res = (case bind_res of Some e \<Rightarrow> Inl (die_errno ''bind'' e) | None \<Rightarrow> Inr ())"

definition dgram_setup ::
    "errno option \<Rightarrow> errno option \<Rightarrow> errno option \<Rightarrow> errno option \<Rightarrow> errno option \<Rightarrow> dgram res" where
  "dgram_setup server_socket client_socket server_bind client_bind fork_res =
     (case (case client_socket of Some e \<Rightarrow> Some e | None \<Rightarrow> server_socket) of
        Some e \<Rightarrow> Inl (die_errno ''socket'' e)
      | None \<Rightarrow>
          (case bind_unix server_bind of
             Inl h \<Rightarrow> Inl h
           | Inr _ \<Rightarrow>
               (case bind_unix client_bind of
                  Inl h \<Rightarrow> Inl h
                | Inr _ \<Rightarrow>
                    (case fork_res of
                       Some e \<Rightarrow> Inl (die_errno ''fork'' e)
                     | None \<Rightarrow> Inr \<lparr>dqueue = [], gpc = GSend 0, hpc = HRecv 0, dlog = [], dpaths = True\<rparr>))))"

definition dgram_start :: dgram where
  "dgram_start = \<lparr>dqueue = [], gpc = GSend 0, hpc = HRecv 0, dlog = [], dpaths = True\<rparr>"

definition dgram_lines :: "string list" where
  "dgram_lines = map (\<lambda>i. ''logger received: '' @ event_line i) [0, 1, 2]"

text \<open>
  The lines are those of the events that were not lost, in order. When nothing can move, the program has ended
  completely if no call failed; a lost event leaves the logger waiting, and the parent for the logger.
\<close>

definition dgram_ok :: "dgram \<Rightarrow> bool" where
  "dgram_ok s \<longleftrightarrow>
     dlog s \<in> set (subseqs dgram_lines)
     \<and> (idle (only dgram_clean dgram_nxt) dgram_acts s \<longrightarrow>
          gpc s = GExit \<and> \<not> dpaths s
            \<and> (hpc s = HGone \<and> dlog s = dgram_lines \<or> hpc s = HDied (Undef ''store outside the buffer''))
          \<or> gpc s = GReap \<and> dpaths s \<and> hpc s = HRecv (length (dlog s)) \<and> length (dlog s) < 3)"

definition dgram_ok_clean :: "dgram \<Rightarrow> bool" where
  "dgram_ok_clean s \<longleftrightarrow>
     take (length (dlog s)) dgram_lines = dlog s
     \<and> (idle (only dgram_clean dgram_nxt) dgram_acts s \<longrightarrow>
          gpc s = GExit \<and> hpc s = HGone \<and> dlog s = dgram_lines \<and> \<not> dpaths s)"

lemma dgram_all_acts: "a \<in> set dgram_acts"
  by (cases a) (simp_all add: dgram_acts_def)

interpretation dgram: explored_system dgram_nxt dgram_acts dgram_start dgram_ok 20
proof unfold_locales
  show "explore dgram_nxt dgram_acts dgram_ok 20 [dgram_start]" by code_simp
qed (use dgram_all_acts in blast)

interpretation dgram_undisturbed: explored_system "only dgram_clean dgram_nxt" dgram_acts dgram_start
  dgram_ok_clean 20
proof unfold_locales
  show "explore (only dgram_clean dgram_nxt) dgram_acts dgram_ok_clean 20 [dgram_start]" by code_simp
qed (use dgram_all_acts in blast)

subsection \<open>The abstract namespace\<close>

text \<open>
  A Unix address: \<open>sun_path\<close> has 108 bytes, and the length given to the kernel counts the two bytes of the
  family. A length beyond the structure is invalid; otherwise the name is the bytes up to the length.
\<close>

record sockaddr_un =
  sun_path :: string
  addr_len :: nat

definition abstract_addr :: "string \<Rightarrow> sockaddr_un" where
  "abstract_addr name =
     (let stored = fst (snprintf (108 - 1) name)
      in \<lparr>sun_path = CHR 0x00 # stored @ replicate (107 - length stored) (CHR 0x00),
          addr_len = 2 + 1 + length name\<rparr>)"

definition unix_name :: "sockaddr_un \<Rightarrow> errno + string" where
  "unix_name addr = (if 110 < addr_len addr then Inl EINVAL else Inr (take (addr_len addr - 2) (sun_path addr)))"

text \<open>
  The program, with the abstract names that are bound already. The server's \<open>accept\<close> waits for ever when the client has
  not connected. \<open>bind_res\<close> is another error of \<open>bind\<close> or \<open>listen\<close>. The client's \<open>socket\<close>, its write, and the
  server's \<open>accept\<close> and \<open>read\<close> are not tested: after a failed \<open>socket\<close> the \<open>connect\<close> fails, without its text the server
  reads the end of the data, and a failed \<open>accept\<close> makes the \<open>read\<close> fail.
\<close>

definition ping_name :: string where
  "ping_name = ''ipc.abstract.ping''"

definition ping_client :: "errno option \<Rightarrow> errno option \<Rightarrow> errno option \<Rightarrow> string res" where
  "ping_client client_socket connect_res write_res =
     (case (case client_socket of Some e \<Rightarrow> Some EBADF | None \<Rightarrow> connect_res) of
        Some e \<Rightarrow> Inl (die_errno ''connect'' e)
      | None \<Rightarrow> Inr (case write_res of Some e \<Rightarrow> [] | None \<Rightarrow> ''ping abstract namespace'' @ [newline]))"

definition ping_server :: "errno option \<Rightarrow> errno option \<Rightarrow> string \<Rightarrow> string res" where
  "ping_server accept_res read_res bytes =
     (case sys_read 63
             (case accept_res of
                Some e \<Rightarrow> RdErr EBADF
              | None \<Rightarrow> (case read_res of Some e \<Rightarrow> RdErr e | None \<Rightarrow> Avail bytes)) of
        (n, got) \<Rightarrow>
          (case terminate_at 64 got n of
             Inl h \<Rightarrow> Inl h
           | Inr buffer \<Rightarrow> Inr (''server received: '' @ buffer)))"

definition ping_main ::
    "errno option \<Rightarrow> string list \<Rightarrow> errno option \<Rightarrow> errno option \<Rightarrow> string res \<Rightarrow> errno option \<Rightarrow> errno option
     \<Rightarrow> string res option" where
  "ping_main socket_res bound bind_res fork_res client accept_res read_res =
     (case socket_res of
        Some e \<Rightarrow> Some (Inl (die_errno ''socket'' e))
      | None \<Rightarrow>
          (case (case unix_name (abstract_addr ping_name) of
                   Inl e \<Rightarrow> Some e
                 | Inr name \<Rightarrow> if name \<in> set bound then Some EADDRINUSE else bind_res) of
             Some e \<Rightarrow> Some (Inl (die_errno ''bind/listen'' e))
           | None \<Rightarrow>
               (case fork_res of
                  Some e \<Rightarrow> Some (Inl (die_errno ''fork'' e))
                | None \<Rightarrow>
                    (case (accept_res, client) of
                       (None, Inl h) \<Rightarrow> None
                     | (_, Inl h) \<Rightarrow> Some (ping_server accept_res read_res [])
                     | (_, Inr bytes) \<Rightarrow> Some (ping_server accept_res read_res bytes)))))"

subsection \<open>Properties\<close>

text \<open>
  C33: Whatever descriptors the two processes have open otherwise, passing works as meant: the sender's control
  message carries the number of the descriptor through its byte encoding, the child
  receives the open file of the parent's descriptor under a number that was free in its table, and prints
  the whole text of the file; the parent ends normally and the file is removed. The child finds a free number because it has
  closed its copy of the parent's socket.
\<close>

theorem passing_delivers:
  assumes "distinct [sv0, sv1, fd]" and "0 \<le> sv0" and "0 \<le> sv1" and "0 \<le> fd" and "in_int fd"
    and "sv0 < int limit" and "limit \<le> 2 ^ 31"
    and "list_all retryable ws" and "35 \<le> sum_list (map accepted ws)"
    and "tab1 = tab(sv0 \<mapsto> SocketA, sv1 \<mapsto> SocketB, fd \<mapsto> Temp_file)"
  shows "(\<exists>r. (tab1(sv0 := None)) r = None
       \<and> recv_fd limit (tab1(sv0 := None)) None (fst (snd (passing_parent tab1 sv0 sv1 fd None)))
           = Inr (r, tab1(sv0 := None, r \<mapsto> Temp_file)))
    \<and> passing_main limit tab (Inr (sv0, sv1)) (Inr fd) ws None None None None
        = Some (Inr (Inr (''child read from received fd: '' @ passed_text), Inr ()), False)"
proof -
  let ?c = "tab1(sv0 := None)"
  have slots: "tab1 sv0 = Some SocketA" "tab1 sv1 = Some SocketB" "tab1 fd = Some Temp_file"
    using assms(1,10) by auto
  obtain r where r: "lowest_free limit ?c = Some r"
    using lowest_free_exists [of ?c sv0 limit] assms(2,6) by auto
  have parent: "passing_parent tab1 sv0 sv1 fd None = (Inr (), Some (''F'', Some Temp_file), False)"
    using assms(1-5) slots
    by (simp add: passing_parent_def xclose_open send_fd_open)
  have recv: "recv_fd limit ?c None (Some (''F'', Some Temp_file)) = Inr (r, ?c(r \<mapsto> Temp_file))"
    using recv_fd_passed [OF r assms(7)] .
  have "length passed_text = 35" "CHR 0x00 \<notin> set passed_text" by (simp_all add: passed_text_def newline_def)
  then have child: "passing_child limit tab1 sv0 None None (Some (''F'', Some Temp_file)) passed_text
      = Inr (''child read from received fd: '' @ passed_text)"
    using recv assms(2) slots
    by (simp add: passing_child_def xclose_open terminate_at_def cstring_id)
  obtain rest where "write_all ws passed_text 35 = Some (sint (35 :: size_t), passed_text, rest)"
    using write_all_returns [of ws 35 passed_text] assms(8,9) \<open>length passed_text = 35\<close>
    by (auto simp: list_all_iff)
  then have "passing_main limit tab (Inr (sv0, sv1)) (Inr fd) ws None None None None
      = Some (Inr (Inr (''child read from received fd: '' @ passed_text), Inr ()), False)"
    using parent child by (simp add: passing_main_def assms(10) [symmetric])
  then show ?thesis using parent recv lowest_free_Some(3) [OF r] by auto
qed

theorem passing_delivers_witness:
  "passing_main 1024 Map.empty (Inr (3, 4)) (Inr 5) [Fail EINTR, Accept 20, Accept 20] None None None None
     = Some (Inr (Inr (''child read from received fd: '' @ passed_text), Inr ()), False)"
  using passing_delivers [of 3 4 5 1024 "[Fail EINTR, Accept 20, Accept 20]" _ Map.empty, OF _ _ _ _ _ _ _ _ _ refl]
  by (simp add: in_int_def INT_MAX_def retryable_def)

text \<open>
  C34: An abstract address stands for its name exactly as long as the name has at most 106 characters; one
  character more and the last one is lost to the NUL that \<open>snprintf\<close> stores, while the length still
  counts it, so that different names become the same address; any longer name is rejected by the kernel. The server's own name
  is short enough, and it prints the ping unless the name is taken, or waits for ever when the client cannot connect. A failed
  \<open>accept\<close>, which is not tested, ends in a store outside the buffer.
\<close>

theorem abstract_addr_names:
  "unix_name (abstract_addr name) =
     (if length name \<le> 106 then Inr (CHR 0x00 # name)
      else if length name = 107 then Inr (CHR 0x00 # take 106 name @ [CHR 0x00])
      else Inl EINVAL)
   \<and> ping_main None bound None None (ping_client None connect_res None) None None =
     (if CHR 0x00 # ping_name \<in> set bound then Some (Inl (die_errno ''bind/listen'' EADDRINUSE))
      else if connect_res = None then Some (Inr (''server received: ping abstract namespace'' @ [newline]))
      else None)
   \<and> ping_server (Some e) read_res bytes = Inl (Undef ''store outside the buffer'')"
proof (intro conjI)
  have names: "unix_name (abstract_addr name) =
     (if length name \<le> 106 then Inr (CHR 0x00 # name)
      else if length name = 107 then Inr (CHR 0x00 # take 106 name @ [CHR 0x00])
      else Inl EINVAL)" for name
    by (simp add: unix_name_def abstract_addr_def snprintf_def Let_def)
  then show "unix_name (abstract_addr name) =
     (if length name \<le> 106 then Inr (CHR 0x00 # name)
      else if length name = 107 then Inr (CHR 0x00 # take 106 name @ [CHR 0x00])
      else Inl EINVAL)" .
  have "length ping_name \<le> 106" by (simp add: ping_name_def)
  then have "unix_name (abstract_addr ping_name) = Inr (CHR 0x00 # ping_name)" using names by simp
  then show "ping_main None bound None None (ping_client None connect_res None) None None =
     (if CHR 0x00 # ping_name \<in> set bound then Some (Inl (die_errno ''bind/listen'' EADDRINUSE))
      else if connect_res = None then Some (Inr (''server received: ping abstract namespace'' @ [newline]))
      else None)"
    by (simp add: ping_main_def ping_client_def ping_server_def terminate_at_def cstring_def newline_def
        split: option.split)
  show "ping_server (Some e) read_res bytes = Inl (Undef ''store outside the buffer'')"
    by (simp add: ping_server_def terminate_at_def)
qed

text \<open>
  When no call fails the logger prints the three events one by one and in order, whatever the schedule: datagrams are not
  joined, in contrast to the messages of the chat over FIFOs. In every run the lines are a part of these in their order;
  when a send has failed and nothing can move, the logger waits for an event that does not come, and the parent for the logger.
\<close>

lemma dgram_logged:
  assumes "dgram_setup None None None None None = Inr s" and "run dgram_nxt as s = Some t"
  shows "length as < 20 \<and> dlog t \<in> set (subseqs dgram_lines)
    \<and> (list_all dgram_clean as \<longrightarrow>
         (\<exists>n. dlog t = take n dgram_lines)
         \<and> (\<exists>bs u. run dgram_nxt (as @ bs) s = Some u \<and> gpc u = GExit \<and> dlog u = dgram_lines \<and> \<not> dpaths u))
    \<and> (stuck (only dgram_clean dgram_nxt) t \<and> hpc t = HRecv i \<longrightarrow> gpc t = GReap \<and> dpaths t \<and> length (dlog t) < 3)"
proof -
  have s: "s = dgram_start" using assms(1) by (simp add: dgram_setup_def bind_unix_def dgram_start_def)
  have r: "run dgram_nxt as dgram_start = Some t" using assms(2) s by simp
  have clean: "(\<exists>n. dlog t = take n dgram_lines)
      \<and> (\<exists>bs u. run dgram_nxt (as @ bs) s = Some u \<and> gpc u = GExit \<and> dlog u = dgram_lines \<and> \<not> dpaths u)"
    if "list_all dgram_clean as"
  proof -
    have rc: "run (only dgram_clean dgram_nxt) as dgram_start = Some t"
      using r that by (simp add: run_only list_all_iff)
    obtain bs u where u: "run (only dgram_clean dgram_nxt) (as @ bs) dgram_start = Some u"
      "idle (only dgram_clean dgram_nxt) dgram_acts u"
      using dgram_undisturbed.run_to_idle [OF rc] by blast
    have "dlog t = take (length (dlog t)) dgram_lines"
      using dgram_undisturbed.checked_run [OF rc] by (simp add: dgram_ok_clean_def)
    then show ?thesis
      using dgram_undisturbed.checked_run [OF u(1)] u(2) run_only_run [OF u(1)] s
      unfolding dgram_ok_clean_def by blast
  qed
  have "dgram_ok t" using dgram.checked_run [OF r] .
  then have "dlog t \<in> set (subseqs dgram_lines)"
    "stuck (only dgram_clean dgram_nxt) t \<Longrightarrow> hpc t = HRecv i \<Longrightarrow> gpc t = GReap \<and> dpaths t \<and> length (dlog t) < 3"
    unfolding dgram_ok_def dgram.stuck_only by auto
  then show ?thesis using dgram.run_bound [OF r] clean by blast
qed

end
