(* ===== verification/EpollEcho.thy ===== *)
theory EpollEcho
  imports Common
begin

text \<open>
  The echo server with \<open>epoll\<close>, \<open>Sockets/epoll_unix_echo.c\<close>, and its two clients. Client \<open>i\<close> is identified with its connection. A connection waits in the backlog of the listening socket
  until it is accepted; the server's descriptor for it is registered with \<open>epoll\<close>, which reports a
  descriptor as long as it is readable: the listening socket while the backlog is not empty, a connection while it holds a message or
  its client has exited.
\<close>

datatype client_pc = KConnect | KWrite | KClose | KGone
datatype event = EvServer | EvConn nat
datatype echo_pc = EWait | EBatch "event list" | EReap | EExit | EDie halt

record echo =
  clients :: "client_pc list"
  backlog :: "nat list"
  conns :: "nat list" \<comment> \<open>accepted and registered\<close>
  inbox :: "nat list" \<comment> \<open>connections that hold a message\<close>
  epc :: echo_pc
  saw :: "nat list" \<comment> \<open>clients whose message was printed\<close>
  spath :: bool \<comment> \<open>the socket path exists\<close>

definition client_message :: "nat \<Rightarrow> string" where
  "client_message i = fst (snprintf 32 (''client-'' @ fmt_d (int i + 1) @ [newline]))"

definition echo_line :: "nat \<Rightarrow> string" where
  "echo_line i = ''epoll echo saw: '' @ client_message i"

definition echo_client :: "nat \<Rightarrow> echo \<Rightarrow> echo option" where
  "echo_client i s =
     (if length (clients s) \<le> i then None
      else
        (case clients s ! i of
           KConnect \<Rightarrow>
             Some (case epc s of
                     EDie h \<Rightarrow> s\<lparr>clients := (clients s)[i := KWrite]\<rparr>
                   | _ \<Rightarrow> s\<lparr>clients := (clients s)[i := KWrite], backlog := backlog s @ [i]\<rparr>)
         | KWrite \<Rightarrow>
             Some (case epc s of
                     EDie h \<Rightarrow> s\<lparr>clients := (clients s)[i := KGone]\<rparr>
                   | _ \<Rightarrow> s\<lparr>clients := (clients s)[i := KClose], inbox := inbox s @ [i]\<rparr>)
         | KClose \<Rightarrow> Some (s\<lparr>clients := (clients s)[i := KGone]\<rparr>)
         | KGone \<Rightarrow> None))"

definition echo_ready :: "echo \<Rightarrow> event list" where
  "echo_ready s =
     (if backlog s = [] then [] else [EvServer])
     @ map EvConn (filter (\<lambda>i. i \<in> set (inbox s) \<or> clients s ! i = KGone) (conns s))"

text \<open>All orders of a list: \<open>epoll_wait\<close> reports the ready descriptors in any order.\<close>

fun insertions :: "'x \<Rightarrow> 'x list \<Rightarrow> 'x list list" where
  "insertions x [] = [[x]]"
| "insertions x (y # ys) = (x # y # ys) # map ((#) y) (insertions x ys)"

fun orders :: "'x list \<Rightarrow> 'x list list" where
  "orders [] = [[]]"
| "orders (x # xs) = concat (map (insertions x) (orders xs))"

definition echo_event :: "event \<Rightarrow> echo \<Rightarrow> echo" where
  "echo_event ev s =
     (case ev of
        EvServer \<Rightarrow>
          (case backlog s of
             [] \<Rightarrow> s
           | i # rest \<Rightarrow> s\<lparr>backlog := rest, conns := conns s @ [i]\<rparr>)
      | EvConn i \<Rightarrow>
          (let s1 = (if i \<in> set (inbox s) then s\<lparr>inbox := removeAll i (inbox s), saw := saw s @ [i]\<rparr> else s)
           in s1\<lparr>conns := removeAll i (conns s1)\<rparr>))"

text \<open>One step of the server; \<open>k\<close> chooses the order in which the events are reported.\<close>

definition echo_server :: "nat \<Rightarrow> echo \<Rightarrow> echo option" where
  "echo_server k s =
     (case epc s of
        EWait \<Rightarrow>
          (if length (saw s) < 2 then
             (let os = orders (take 4 (echo_ready s)) in
              if echo_ready s = [] \<or> length os \<le> k then None else Some (s\<lparr>epc := EBatch (os ! k)\<rparr>))
           else if k = 0 then Some (s\<lparr>epc := EReap\<rparr>) else None)
      | EBatch [] \<Rightarrow> if k = 0 then Some (s\<lparr>epc := EWait\<rparr>) else None
      | EBatch (ev # evs) \<Rightarrow> if k = 0 then Some ((echo_event ev s)\<lparr>epc := EBatch evs\<rparr>) else None
      | EReap \<Rightarrow>
          (if k = 0 \<and> list_all (\<lambda>c. c = KGone) (clients s)
           then Some (s\<lparr>spath := False, epc := EExit\<rparr>) else None)
      | _ \<Rightarrow> None)"

definition echo_timeout :: "echo \<Rightarrow> echo option" where
  "echo_timeout s =
     (if epc s = EWait \<and> length (saw s) < 2 \<and> echo_ready s = []
      then Some (s\<lparr>backlog := [], conns := [], epc := EDie (die ''epoll_wait timeout'')\<rparr>) else None)"

text \<open>
  The failures of calls that are not tested. A client whose \<open>connect\<close> or write fails exits without a message. A failed
  \<open>accept4\<close> leaves the connection in the backlog, and adding the number \<open>-1\<close> to the \<open>epoll\<close> set fails as well. After a failed
  \<open>read\<close> the connection is closed. An error of \<open>epoll_wait\<close>, as when the \<open>epoll\<close> set could not be made, is taken for a timeout.
\<close>

definition echo_client_fails :: "nat \<Rightarrow> echo \<Rightarrow> echo option" where
  "echo_client_fails i s =
     (if i < length (clients s) \<and> (clients s ! i = KConnect \<or> clients s ! i = KWrite)
      then Some (s\<lparr>clients := (clients s)[i := KGone]\<rparr>) else None)"

definition echo_event_fails :: "echo \<Rightarrow> echo option" where
  "echo_event_fails s =
     (case epc s of
        EBatch (EvServer # evs) \<Rightarrow> Some (s\<lparr>epc := EBatch evs\<rparr>)
      | EBatch (EvConn i # evs) \<Rightarrow>
          Some (s\<lparr>inbox := removeAll i (inbox s), conns := removeAll i (conns s), epc := EBatch evs\<rparr>)
      | _ \<Rightarrow> None)"

definition echo_wait_fails :: "echo \<Rightarrow> echo option" where
  "echo_wait_fails s =
     (if epc s = EWait \<and> length (saw s) < 2
      then Some (s\<lparr>backlog := [], conns := [], epc := EDie (die ''epoll_wait timeout'')\<rparr>) else None)"

datatype echo_act = Server nat | Client nat | Timeout | ClientFails nat | EventFails | WaitFails

fun echo_nxt :: "echo_act \<Rightarrow> echo \<Rightarrow> echo option" where
  "echo_nxt (Server k) s = (if k < 6 then echo_server k s else None)"
| "echo_nxt (Client i) s = (if i < 2 then echo_client i s else None)"
| "echo_nxt Timeout s = echo_timeout s"
| "echo_nxt (ClientFails i) s = echo_client_fails i s"
| "echo_nxt EventFails s = echo_event_fails s"
| "echo_nxt WaitFails s = echo_wait_fails s"

text \<open>The actions in which no call fails, and those that are not a timeout either.\<close>

fun echo_calls :: "echo_act \<Rightarrow> bool" where
  "echo_calls (Server k) = True"
| "echo_calls (Client i) = True"
| "echo_calls Timeout = True"
| "echo_calls a = False"

fun echo_clean :: "echo_act \<Rightarrow> bool" where
  "echo_clean (Server k) = True"
| "echo_clean (Client i) = True"
| "echo_clean a = False"

definition echo_sys :: "echo_act \<Rightarrow> echo \<Rightarrow> echo option" where
  "echo_sys = only echo_calls echo_nxt"

text \<open>The results of the two calls of \<open>fork\<close> are compared with 0 only.\<close>

definition echo_setup :: "errno option \<Rightarrow> errno option \<Rightarrow> bool \<Rightarrow> bool \<Rightarrow> echo res" where
  "echo_setup socket_res bind_res fork0 fork1 =
     (case socket_res of
        Some e \<Rightarrow> Inl (die_errno ''socket'' e)
      | None \<Rightarrow>
          (case bind_res of
             Some e \<Rightarrow> Inl (die_errno ''bind/listen'' e)
           | None \<Rightarrow>
               Inr \<lparr>clients = [if fork0 then KConnect else KGone, if fork1 then KConnect else KGone],
                    backlog = [], conns = [], inbox = [], epc = EWait, saw = [], spath = True\<rparr>))"

definition echo_start :: "bool \<Rightarrow> bool \<Rightarrow> echo" where
  "echo_start fork0 fork1 =
     \<lparr>clients = [if fork0 then KConnect else KGone, if fork1 then KConnect else KGone],
      backlog = [], conns = [], inbox = [], epc = EWait, saw = [], spath = True\<rparr>"

definition echo_acts :: "echo_act list" where
  "echo_acts = map Server [0..<6] @ [Client 0, Client 1, Timeout]"

text \<open>
  The types of the state: no connection is in two places or twice in one, and only clients that have
  connected are anywhere; and what holds when nothing can move any more.
\<close>

definition echo_wf :: "echo \<Rightarrow> bool" where
  "echo_wf s \<longleftrightarrow>
     length (clients s) = 2 \<and> distinct (backlog s @ conns s) \<and> distinct (inbox s @ saw s)
     \<and> list_all (\<lambda>i. i < 2 \<and> clients s ! i \<noteq> KConnect) (backlog s @ conns s @ inbox s @ saw s)"

definition echo_ok :: "echo \<Rightarrow> bool" where
  "echo_ok s \<longleftrightarrow>
     echo_wf s
     \<and> (epc s = EExit \<longrightarrow>
          saw s \<in> {[0, 1], [1, 0]} \<and> backlog s = [] \<and> conns s = [] \<and> inbox s = [] \<and> \<not> spath s)
     \<and> (idle (only echo_clean echo_sys) echo_acts s \<longrightarrow>
          epc s = EExit \<or> epc s = EDie (die ''epoll_wait timeout'') \<and> spath s)"

interpretation echo: explored_system echo_sys echo_acts "echo_start True True" echo_ok 30
proof unfold_locales
  show "explore echo_sys echo_acts echo_ok 30 [echo_start True True]" by code_simp
next
  fix a s
  assume "a \<notin> set echo_acts"
  then show "echo_sys a s = None"
    by (cases a) (auto simp: echo_sys_def only_def echo_acts_def upt_rec less_Suc_eq numeral_eq_Suc)
qed

text \<open>With a failed \<open>fork\<close> there are fewer than two messages, and the server can only time out.\<close>

definition echo_few :: "echo \<Rightarrow> bool" where
  "echo_few s \<longleftrightarrow>
     echo_wf s \<and> epc s \<noteq> EExit
     \<and> (idle echo_sys echo_acts s \<longrightarrow> epc s = EDie (die ''epoll_wait timeout'') \<and> spath s)"

lemma explored_few:
  "explore echo_sys echo_acts echo_few 30 [echo_start True False, echo_start False True, echo_start False False]"
  by code_simp

subsection \<open>Properties\<close>

definition echo_dead :: "echo \<Rightarrow> bool" where
  "echo_dead s \<longleftrightarrow> (case epc s of EDie h \<Rightarrow> True | _ \<Rightarrow> False)"

lemma echo_dead_step: "echo_nxt a s = Some t \<Longrightarrow> echo_clean a \<Longrightarrow> \<not> echo_dead s \<Longrightarrow> \<not> echo_dead t"
  by (cases a)
    (auto simp: echo_server_def echo_client_def echo_dead_def Let_def
      split: if_splits echo_pc.splits list.splits client_pc.splits)

lemma echo_dead_run:
  "run echo_nxt as s = Some t \<Longrightarrow> list_all echo_clean as \<Longrightarrow> \<not> echo_dead s \<Longrightarrow> \<not> echo_dead t"
  by (induction as arbitrary: s) (auto split: option.splits dest: echo_dead_step)

lemma echo_few_run:
  assumes "run echo_sys as (echo_start fork0 fork1) = Some t" and "\<not> (fork0 \<and> fork1)"
  shows "echo_few t \<and> length as < 30"
proof -
  have "echo_start fork0 fork1 \<in> set [echo_start True False, echo_start False True, echo_start False False]"
    using assms(2) by (cases fork0; cases fork1) simp_all
  then show ?thesis using explore_run [OF explored_few _ assms(1)] echo.run_acts [OF assms(1)] by blast
qed

lemma echo_clean_calls: "only echo_clean echo_sys = only echo_clean echo_nxt"
proof (intro ext)
  fix a s
  show "only echo_clean echo_sys a s = only echo_clean echo_nxt a s"
    by (cases a) (simp_all add: only_def echo_sys_def)
qed

text \<open>A client that cannot connect leaves the state of one that was not started.\<close>

lemma echo_client_lost: "echo_nxt (ClientFails 0) (echo_start True fork1) = Some (echo_start False fork1)"
  by (simp add: echo_client_fails_def echo_start_def)

text \<open>
  C35: As long as no call fails, in every schedule, and in whatever order \<open>epoll_wait\<close> reports the descriptors, the state stays well
  formed: no connection is in two places, or twice in one. Every schedule has fewer than 30 steps. With both
  clients started the server needs no timeout to end: where nothing else can happen it has exited, with the message of
  each client printed exactly once and every connection closed. A run that ends otherwise has stopped because the wait timed
  out, leaving the socket path behind; when a \<open>fork\<close> has failed, which is not tested, every run ends so. A client whose \<open>connect\<close>
  fails, which is not tested either, leaves the state of a failed \<open>fork\<close>.
\<close>

theorem echo_serves:
  assumes "echo_setup None None fork0 fork1 = Inr s" and "run echo_nxt as s = Some t" and "list_all echo_calls as"
  shows "echo_wf t \<and> length as < 30
    \<and> (epc t = EExit \<longrightarrow> saw t \<in> {[0, 1], [1, 0]} \<and> conns t = [] \<and> \<not> spath t)
    \<and> (fork0 \<and> fork1 \<and> list_all echo_clean as \<and> stuck (only echo_clean echo_nxt) t \<longrightarrow> epc t = EExit)
    \<and> (stuck (only echo_calls echo_nxt) t \<longrightarrow>
         epc t = EExit \<and> fork0 \<and> fork1
         \<or> epc t = EDie (Exit 1 (''error: epoll_wait timeout'' @ [newline])) \<and> spath t)
    \<and> (fork0 \<longrightarrow> map_option Inr (echo_nxt (ClientFails 0) s) = Some (echo_setup None None False fork1))"
proof -
  have d: "die ''epoll_wait timeout'' = Exit 1 (''error: epoll_wait timeout'' @ [newline])" by (simp add: die_def)
  have s: "s = echo_start fork0 fork1" using assms(1) by (simp add: echo_setup_def echo_start_def)
  have r: "run echo_sys as (echo_start fork0 fork1) = Some t"
    using assms(2,3) s by (simp add: echo_sys_def run_only list_all_iff)
  have lost: "fork0 \<longrightarrow> map_option Inr (echo_nxt (ClientFails 0) s) = Some (echo_setup None None False fork1)"
    using echo_client_lost [of fork1] s by (simp add: echo_setup_def echo_start_def)
  show ?thesis
  proof (cases "fork0 \<and> fork1")
    case True
    then have r': "run echo_sys as (echo_start True True) = Some t" using r by simp
    have "\<not> echo_dead s" by (simp add: echo_dead_def echo_start_def s)
    then have alive: "epc t \<noteq> EDie h" if "list_all echo_clean as" for h
      using echo_dead_run [OF assms(2) that] by (auto simp: echo_dead_def)
    have "stuck (only echo_clean echo_sys) t" if "stuck echo_sys t"
      using that by (simp add: stuck_def only_def)
    then show ?thesis
      using echo.checked_run [OF r'] alive echo.run_bound [OF r'] True lost
      unfolding echo_ok_def d echo.stuck_only echo_clean_calls [symmetric] echo_sys_def [symmetric] by auto
  next
    case False
    have "echo_few t \<and> length as < 30" using echo_few_run [OF r False] .
    then show ?thesis
      using False lost unfolding echo_few_def d echo.stuck_idle echo_sys_def [symmetric] by auto
  qed
qed

definition echo_schedule :: "echo_act list" where
  "echo_schedule =
     [Client 1, Client 1, Server 0, Server 0, Client 0, Server 0, Server 0, Server 0, Client 0, Server 0,
      Server 0, Server 0, Server 0, Server 0, Client 0, Client 1, Server 0, Server 0]"

definition echo_end :: echo where
  "echo_end = \<lparr>clients = [KGone, KGone], backlog = [], conns = [], inbox = [], epc = EExit, saw = [1, 0], spath = False\<rparr>"

lemma echo_schedule_run: "run echo_nxt echo_schedule (echo_start True True) = Some echo_end"
  by code_simp

theorem echo_serves_witness:
  "run echo_nxt echo_schedule (echo_start True True) = Some echo_end
     \<and> saw echo_end \<in> {[0, 1], [1, 0]} \<and> conns echo_end = []"
proof -
  have "echo_setup None None True True = Inr (echo_start True True)"
    by (simp add: echo_setup_def echo_start_def)
  moreover have "list_all echo_calls echo_schedule" by (simp add: echo_schedule_def)
  ultimately show ?thesis
    using echo_serves [OF _ echo_schedule_run] echo_schedule_run by (simp add: echo_end_def)
qed

end
