(* ===== verification/InetPrograms.thy ===== *)
theory InetPrograms
  imports Common
begin

text \<open>
  The programs of \<open>InternetSockets/\<close>: the echo server that forks a worker for every connection
  (\<open>tcp_forking_echo_server.c\<close>), the half-closed connection (\<open>tcp_shutdown_halfclose.c\<close>), the connected
  UDP socket (\<open>udp_connected_echo.c\<close>), the port bound twice (\<open>reuseaddr_rebind_demo.c\<close>) and the
  address lookup (\<open>getaddrinfo_loopback_client.c\<close>).
\<close>

subsection \<open>The forking echo server\<close>

text \<open>
  Connection \<open>i\<close> is that of client \<open>i\<close>; it holds the client's text once that was written, and ends when the client
  has closed it. The worker with number \<open>w\<close> serves the \<open>w\<close>-th accepted connection. \<open>TAbsent\<close>: the
  \<open>fork\<close> failed, which the program does not test.
\<close>

datatype tcp_client = TConnect | TWrite | TGone | TAbsent | TFailed halt
datatype tcp_buffer = Text_of nat | No_text
datatype tcp_worker = WRead "nat option" | WPrint tcp_buffer | WGone | WAbsent | WDied halt
datatype tcp_pc = TSpawn nat | TAccept nat | TFork nat "nat option" | TReap | TExit \<comment> \<open>\<open>TFork i None\<close>: \<open>accept\<close> has failed\<close>

record tcp =
  tclients :: "tcp_client list"
  tbacklog :: "nat list"
  tdata :: "nat list" \<comment> \<open>connections whose text has arrived and was not read\<close>
  tworkers :: "tcp_worker list"
  tpc :: tcp_pc
  tout :: "tcp_buffer list" \<comment> \<open>what the workers have printed\<close>

definition client_text :: "nat \<Rightarrow> string" where
  "client_text i = (if i = 0 then ''alpha'' @ [newline] else ''beta'' @ [newline])"

text \<open>
  The write, the close and the exit of the client are one step: the text can be read before and after
  the close alike.
\<close>

definition connect_client :: "nat \<Rightarrow> tcp \<Rightarrow> tcp option" where
  "connect_client i s =
     (if length (tclients s) \<le> i then None
      else
        (case tclients s ! i of
           TConnect \<Rightarrow> Some (s\<lparr>tclients := (tclients s)[i := TWrite], tbacklog := tbacklog s @ [i]\<rparr>)
         | TWrite \<Rightarrow> Some (s\<lparr>tclients := (tclients s)[i := TGone], tdata := tdata s @ [i]\<rparr>)
         | _ \<Rightarrow> None))"

text \<open>A failed \<open>connect\<close> ends the client; a failed write, which is not tested, loses the text.\<close>

definition connect_client_fails :: "nat \<Rightarrow> errno \<Rightarrow> tcp \<Rightarrow> tcp option" where
  "connect_client_fails i e s =
     (if length (tclients s) \<le> i then None
      else
        (case tclients s ! i of
           TConnect \<Rightarrow> Some (s\<lparr>tclients := (tclients s)[i := TFailed (die_errno ''connect'' e)]\<rparr>)
         | TWrite \<Rightarrow> Some (s\<lparr>tclients := (tclients s)[i := TGone]\<rparr>)
         | _ \<Rightarrow> None))"

text \<open>
  The worker waits for data or for the end of the connection, and prints the client's text or an empty
  one; the texts are shorter than its buffer of 64 bytes. A failing \<open>read\<close>, as always after a failed \<open>accept\<close>, is
  not tested, and the worker stores at index \<open>-1\<close>.
\<close>

fun buffer_text :: "tcp_buffer \<Rightarrow> string" where
  "buffer_text (Text_of i) = cstring (take 63 (client_text i))"
| "buffer_text No_text = []"

definition tcp_line :: "tcp_buffer \<Rightarrow> string" where
  "tcp_line b = ''tcp worker echo: '' @ buffer_text b"

definition worker_read_fails :: "nat \<Rightarrow> tcp \<Rightarrow> tcp option" where
  "worker_read_fails w s =
     (case terminate_at 64 [] (-1) of
        Inl h \<Rightarrow> Some (s\<lparr>tworkers := (tworkers s)[w := WDied h]\<rparr>)
      | Inr buffer \<Rightarrow> None)"

definition tcp_worker_step :: "nat \<Rightarrow> tcp \<Rightarrow> tcp option" where
  "tcp_worker_step w s =
     (if length (tworkers s) \<le> w then None
      else
        (case tworkers s ! w of
           WRead None \<Rightarrow> worker_read_fails w s
         | WRead (Some i) \<Rightarrow>
             (if i \<in> set (tdata s) then
                Some (s\<lparr>tdata := removeAll i (tdata s), tworkers := (tworkers s)[w := WPrint (Text_of i)]\<rparr>)
              else if tclients s ! i = TGone then Some (s\<lparr>tworkers := (tworkers s)[w := WPrint No_text]\<rparr>)
              else None)
         | WPrint b \<Rightarrow>
             Some (s\<lparr>tout := tout s @ [b], tworkers := (tworkers s)[w := WGone]\<rparr>)
         | _ \<Rightarrow> None))"

fun client_ended :: "tcp_client \<Rightarrow> bool" where
  "client_ended TConnect = False"
| "client_ended TWrite = False"
| "client_ended c = True"

fun worker_ended :: "tcp_worker \<Rightarrow> bool" where
  "worker_ended (WRead c) = False"
| "worker_ended (WPrint b) = False"
| "worker_ended w = True"

definition tcp_server :: "bool \<Rightarrow> tcp \<Rightarrow> tcp option" where
  "tcp_server forked s =
     (case tpc s of
        TSpawn i \<Rightarrow>
          (if i < 2 then
             Some (s\<lparr>tclients := tclients s @ [if forked then TConnect else TAbsent], tpc := TSpawn (i + 1)\<rparr>)
           else if forked then Some (s\<lparr>tpc := TAccept 0\<rparr>) else None)
      | TAccept i \<Rightarrow>
          (if \<not> forked then None
           else if i < 2 then
             (case tbacklog s of
                [] \<Rightarrow> None
              | c # rest \<Rightarrow> Some (s\<lparr>tbacklog := rest, tpc := TFork i (Some c)\<rparr>))
           else Some (s\<lparr>tpc := TReap\<rparr>))
      | TFork i c \<Rightarrow>
          Some (s\<lparr>tworkers := tworkers s @ [if forked then WRead c else WAbsent], tpc := TAccept (i + 1)\<rparr>)
      | TReap \<Rightarrow>
          (if forked \<and> list_all client_ended (tclients s) \<and> list_all worker_ended (tworkers s)
           then Some (s\<lparr>tpc := TExit\<rparr>) else None)
      | TExit \<Rightarrow> None)"

text \<open>\<open>TServer False\<close>: the call of \<open>fork\<close> that the server makes now fails.\<close>

datatype tcp_act =
    TServer bool | TClient nat | TWorker nat | TAcceptFails | TClientFails nat errno | TWorkerFails nat

fun tcp_nxt :: "tcp_act \<Rightarrow> tcp \<Rightarrow> tcp option" where
  "tcp_nxt (TServer forked) s = tcp_server forked s"
| "tcp_nxt (TClient i) s = (if i < 2 then connect_client i s else None)"
| "tcp_nxt (TWorker w) s = (if w < 2 then tcp_worker_step w s else None)"
| "tcp_nxt TAcceptFails s =
     (case tpc s of TAccept i \<Rightarrow> if i < 2 then Some (s\<lparr>tpc := TFork i None\<rparr>) else None | _ \<Rightarrow> None)"
| "tcp_nxt (TClientFails i e) s = connect_client_fails i e s"
| "tcp_nxt (TWorkerFails w) s =
     (if length (tworkers s) \<le> w then None
      else (case tworkers s ! w of WRead c \<Rightarrow> worker_read_fails w s | _ \<Rightarrow> None))"

text \<open>The actions in which no call but \<open>fork\<close> fails.\<close>

fun tcp_calls :: "tcp_act \<Rightarrow> bool" where
  "tcp_calls (TServer forked) = True"
| "tcp_calls (TClient i) = True"
| "tcp_calls (TWorker w) = True"
| "tcp_calls a = False"

definition tcp_sys :: "tcp_act \<Rightarrow> tcp \<Rightarrow> tcp option" where
  "tcp_sys = only tcp_calls tcp_nxt"

definition listen_loopback :: "errno option \<Rightarrow> errno option \<Rightarrow> unit res" where
  "listen_loopback socket_res bind_res =
     (case socket_res of
        Some e \<Rightarrow> Inl (die_errno ''socket'' e)
      | None \<Rightarrow> (case bind_res of Some e \<Rightarrow> Inl (die_errno ''bind/listen'' e) | None \<Rightarrow> Inr ()))"

definition tcp_setup :: "errno option \<Rightarrow> errno option \<Rightarrow> tcp res" where
  "tcp_setup socket_res bind_res =
     (case listen_loopback socket_res bind_res of
        Inl h \<Rightarrow> Inl h
      | Inr _ \<Rightarrow> Inr \<lparr>tclients = [], tbacklog = [], tdata = [], tworkers = [], tpc = TSpawn 0, tout = []\<rparr>)"

definition tcp_start :: tcp where
  "tcp_start = \<lparr>tclients = [], tbacklog = [], tdata = [], tworkers = [], tpc = TSpawn 0, tout = []\<rparr>"

definition tcp_acts :: "tcp_act list" where
  "tcp_acts = [TServer True, TServer False, TClient 0, TClient 1, TWorker 0, TWorker 1]"

text \<open>
  Every line is the echo of one client, and none appears twice. When nothing can move, either a client was not
  started and the server waits in \<open>accept\<close> for ever, or it has exited; then the lines are as many as the workers started.
\<close>

definition tcp_ok :: "tcp \<Rightarrow> bool" where
  "tcp_ok s \<longleftrightarrow>
     length (tclients s) \<le> 2 \<and> distinct (tout s) \<and> list_all (\<lambda>b. b = Text_of 0 \<or> b = Text_of 1) (tout s)
     \<and> (idle tcp_sys tcp_acts s \<longrightarrow>
          (if TAbsent \<in> set (tclients s) then tpc s = TAccept (length (filter (\<lambda>c. c \<noteq> TAbsent) (tclients s)))
           else tpc s = TExit \<and> length (tout s) = length (filter (\<lambda>w. w \<noteq> WAbsent) (tworkers s))
             \<and> length (tworkers s) = 2))"

interpretation tcp: explored_system tcp_sys tcp_acts tcp_start tcp_ok 30
proof unfold_locales
  show "explore tcp_sys tcp_acts tcp_ok 30 [tcp_start]" by code_simp
next
  fix a s
  assume "a \<notin> set tcp_acts"
  then show "tcp_sys a s = None"
    by (cases a) (auto simp: tcp_sys_def only_def tcp_acts_def less_2_cases_iff)
qed

subsection \<open>The half-closed connection\<close>

datatype half_client = HConnect | HWrite | HShut | HRead | HPrint string | HGone | HDied halt
datatype half_server = VAccept | VRead | VWrite | VReap | VExit

record half =
  hqueue :: bool \<comment> \<open>the connection waits to be accepted or was\<close>
  to_server :: string
  shut_wr :: bool \<comment> \<open>the client has shut down its writing side\<close>
  to_client :: string
  hclient :: half_client
  hserver :: half_server
  hgot :: nat \<comment> \<open>bytes of the request that the server has read\<close>
  hout :: string

definition request_body :: string where
  "request_body = ''request body''"

definition response_text :: string where
  "response_text = ''response after EOF''"

definition half_client_step :: "half \<Rightarrow> half option" where
  "half_client_step s =
     (case hclient s of
        HConnect \<Rightarrow> Some (s\<lparr>hqueue := True, hclient := HWrite\<rparr>)
      | HWrite \<Rightarrow> Some (s\<lparr>to_server := to_server s @ take 12 request_body, hclient := HShut\<rparr>)
      | HShut \<Rightarrow> Some (s\<lparr>shut_wr := True, hclient := HRead\<rparr>)
      | HRead \<Rightarrow>
          (if to_client s \<noteq> [] then Some (s\<lparr>to_client := drop 63 (to_client s), hclient := HPrint (take 63 (to_client s))\<rparr>)
           else if hserver s = VExit then Some (s\<lparr>hclient := HPrint []\<rparr>)
           else None)
      | HPrint response \<Rightarrow>
          Some (s\<lparr>hout := hout s @ ''client read after half-close: '' @ cstring response @ [newline], hclient := HGone\<rparr>)
      | _ \<Rightarrow> None)"

text \<open>The server reads until the end of the data, answers, and keeps the connection while it waits for the child.\<close>

definition half_server_step :: "half \<Rightarrow> half option" where
  "half_server_step s =
     (case hserver s of
        VAccept \<Rightarrow> if hqueue s then Some (s\<lparr>hserver := VRead\<rparr>) else None
      | VRead \<Rightarrow>
          (if to_server s \<noteq> [] then
             Some (s\<lparr>hgot := hgot s + length (take 64 (to_server s)), to_server := drop 64 (to_server s)\<rparr>)
           else if shut_wr s then Some (s\<lparr>hserver := VWrite\<rparr>)
           else None)
      | VWrite \<Rightarrow> Some (s\<lparr>to_client := to_client s @ take 18 response_text, hserver := VReap\<rparr>)
      | VReap \<Rightarrow>
          (case hclient s of
             HGone \<Rightarrow> Some (s\<lparr>hserver := VExit\<rparr>)
           | HDied h \<Rightarrow> Some (s\<lparr>hserver := VExit\<rparr>)
           | _ \<Rightarrow> None)
      | VExit \<Rightarrow> None)"

text \<open>
  The failures of calls that are not tested. Writing to a socket that is not connected raises \<open>SIGPIPE\<close>; a failed \<open>read\<close> of the client is
  followed by a store at index \<open>-1\<close>; after a failed \<open>accept\<close> the server's \<open>read\<close> and write fail as well, and it waits for the client; a
  failed \<open>read\<close> of the server ends its loop.
\<close>

datatype half_act = HalfServer | HalfClient | HalfConnectFails | HalfReadFails | HalfAcceptFails | HalfServerReadFails

fun half_nxt :: "half_act \<Rightarrow> half \<Rightarrow> half option" where
  "half_nxt HalfServer s = half_server_step s"
| "half_nxt HalfClient s = half_client_step s"
| "half_nxt HalfConnectFails s =
     (if hclient s = HConnect then Some (s\<lparr>hclient := HDied (Killed ''SIGPIPE'')\<rparr>) else None)"
| "half_nxt HalfReadFails s =
     (if hclient s = HRead then
        (case terminate_at 64 [] (-1) of Inl h \<Rightarrow> Some (s\<lparr>hclient := HDied h\<rparr>) | Inr response \<Rightarrow> None)
      else None)"
| "half_nxt HalfAcceptFails s = (if hserver s = VAccept then Some (s\<lparr>hserver := VReap\<rparr>) else None)"
| "half_nxt HalfServerReadFails s = (if hserver s = VRead then Some (s\<lparr>hserver := VWrite\<rparr>) else None)"

fun half_clean :: "half_act \<Rightarrow> bool" where
  "half_clean HalfServer = True"
| "half_clean HalfClient = True"
| "half_clean a = False"

definition half_sys :: "half_act \<Rightarrow> half \<Rightarrow> half option" where
  "half_sys = only half_clean half_nxt"

definition half_acts :: "half_act list" where
  "half_acts = [HalfServer, HalfClient]"

text \<open>The result of \<open>fork\<close> is compared with 0 only.\<close>

definition half_setup :: "errno option \<Rightarrow> errno option \<Rightarrow> bool \<Rightarrow> half res" where
  "half_setup socket_res bind_res forked =
     (case socket_res of
        Some e \<Rightarrow> Inl (die_errno ''socket'' e)
      | None \<Rightarrow>
          (case bind_res of
             Some e \<Rightarrow> Inl (die_errno ''bind/listen'' e)
           | None \<Rightarrow> Inr \<lparr>hqueue = False, to_server = [], shut_wr = False, to_client = [],
                          hclient = (if forked then HConnect else HGone), hserver = VAccept, hgot = 0, hout = []\<rparr>))"

definition half_start :: "bool \<Rightarrow> half" where
  "half_start forked =
     \<lparr>hqueue = False, to_server = [], shut_wr = False, to_client = [],
      hclient = (if forked then HConnect else HGone), hserver = VAccept, hgot = 0, hout = []\<rparr>"

definition half_line :: string where
  "half_line = ''client read after half-close: response after EOF'' @ [newline]"

text \<open>The answer is sent only after the whole request has been read and the client has shut down its side.\<close>

definition half_ok :: "half \<Rightarrow> bool" where
  "half_ok s \<longleftrightarrow>
     (hserver s \<notin> {VAccept, VRead} \<longrightarrow> hgot s = 12 \<and> shut_wr s)
     \<and> (hout s = [] \<or> hout s = half_line)
     \<and> (idle half_sys half_acts s \<longrightarrow> hserver s = VExit \<and> hclient s = HGone \<and> hout s = half_line)"

interpretation half: explored_system half_sys half_acts "half_start True" half_ok 20
proof unfold_locales
  show "explore half_sys half_acts half_ok 20 [half_start True]" by code_simp
  show "half_sys a s = None" if "a \<notin> set half_acts" for a s
    using that by (cases a) (auto simp: half_sys_def only_def half_acts_def)
qed

text \<open>A failed \<open>accept\<close>: the server waits for the client, and the client for an answer.\<close>

lemma half_accept_fails:
  "\<exists>u. run half_nxt [HalfClient, HalfAcceptFails, HalfClient, HalfClient] (half_start True) = Some u
     \<and> stuck half_sys u \<and> hserver u = VReap \<and> hclient u = HRead"
  unfolding half.stuck_idle
  by (simp add: half_start_def half_client_step_def half_server_step_def request_body_def idle_def half_acts_def
      half_sys_def only_def)

subsection \<open>The connected UDP socket\<close>

text \<open>
  Datagrams that other processes have sent to the server's port before the client's, with their senders;
  the server answers the first datagram of its queue. \<open>None\<close>: a call waits for ever. The results of the write, of
  \<open>recvfrom\<close>, \<open>sendto\<close> and \<open>read\<close> are not tested: without the client's datagram \<open>recvfrom\<close> waits, after its failure
  \<open>sendto\<close> fails with the length \<open>-1\<close>, without an answer the client waits, and a failed \<open>read\<close> is followed by a store at index \<open>-1\<close>.
\<close>

definition udp_server :: "errno option \<Rightarrow> errno option \<Rightarrow> (nat option \<times> string) list \<Rightarrow> string option option" where
  "udp_server recv_res sendto_res queue =
     (case recv_res of
        Some e \<Rightarrow> Some None
      | None \<Rightarrow>
          (case queue of
             [] \<Rightarrow> None
           | (Some from, d) # q \<Rightarrow> Some None
           | (None, d) # q \<Rightarrow> Some (case sendto_res of Some e \<Rightarrow> None | None \<Rightarrow> Some (take 64 d))))"

definition udp_client :: "errno option \<Rightarrow> string option \<Rightarrow> string res option" where
  "udp_client read_res answer =
     (case (case read_res of Some e \<Rightarrow> Some (RdErr e) | None \<Rightarrow> map_option Avail answer) of
        None \<Rightarrow> None
      | Some r \<Rightarrow>
          (case sys_read 63 r of
             (n, bytes) \<Rightarrow>
               (case terminate_at 64 bytes n of
                  Inl h \<Rightarrow> Some (Inl h)
                | Inr buffer \<Rightarrow> Some (Inr (''connected udp echo: '' @ buffer @ [newline])))))"

definition udp_main ::
    "errno option \<Rightarrow> errno option \<Rightarrow> errno option \<Rightarrow> errno option \<Rightarrow> (nat \<times> string) list
     \<Rightarrow> errno option \<Rightarrow> errno option \<Rightarrow> errno option \<Rightarrow> errno option \<Rightarrow> string res option" where
  "udp_main server_socket client_socket bind_res connect_res foreign write_res recv_res sendto_res read_res =
     (case (case client_socket of Some e \<Rightarrow> Some e | None \<Rightarrow> server_socket) of
        Some e \<Rightarrow> Some (Inl (die_errno ''socket'' e))
      | None \<Rightarrow>
          (case bind_res of
             Some e \<Rightarrow> Some (Inl (die_errno ''bind server'' e))
           | None \<Rightarrow>
               (case connect_res of
                  Some e \<Rightarrow> Some (Inl (die_errno ''connect udp'' e))
                | None \<Rightarrow>
                    (let own = (case write_res of Some e \<Rightarrow> [] | None \<Rightarrow> [(None, ''udp payload'')]);
                         queue = map (\<lambda>(from, d). (Some from, d)) foreign @ own
                     in case udp_server recv_res sendto_res queue of
                          None \<Rightarrow> None
                        | Some answer \<Rightarrow> udp_client read_res answer))))"

subsection \<open>The port bound twice\<close>










subsection \<open>The address lookup\<close>

text \<open>\<open>getaddrinfo\<close> gives an error code, with its text, or a list of addresses.\<close>

fun count_loop :: "'x list \<Rightarrow> int \<Rightarrow> int" where
  "count_loop [] count = count"
| "count_loop (it # ai_next) count = count_loop ai_next (count + 1)"

definition getaddrinfo_main :: "(int \<Rightarrow> string) \<Rightarrow> int + 'x list \<Rightarrow> string res" where
  "getaddrinfo_main gai_strerror lookup =
     (case lookup of
        Inl rc \<Rightarrow> Inl (Exit 1 (''getaddrinfo: '' @ gai_strerror rc @ [newline]))
      | Inr xs \<Rightarrow> Inr (''resolved loopback stream endpoints='' @ fmt_d (count_loop xs 0) @ [newline]))"

subsection \<open>Properties\<close>

text \<open>Without a failing \<open>fork\<close> nothing is absent.\<close>

definition all_started :: "tcp \<Rightarrow> bool" where
  "all_started s \<longleftrightarrow> TAbsent \<notin> set (tclients s) \<and> WAbsent \<notin> set (tworkers s)"

lemma all_started_step:
  assumes "tcp_nxt a s = Some t" and "a \<noteq> TServer False" and "tcp_calls a" and "all_started s"
  shows "all_started t"
proof (cases a)
  case (TServer forked)
  then show ?thesis
    using assms by (auto simp: tcp_server_def all_started_def split: tcp_pc.splits if_splits list.splits)
next
  case (TClient i)
  then show ?thesis
    using assms set_update_subset_insert [of "tclients s" i]
    by (fastforce simp: connect_client_def all_started_def split: if_splits tcp_client.splits)
next
  case (TWorker w)
  then show ?thesis
    using assms set_update_subset_insert [of "tworkers s" w]
    by (fastforce simp: tcp_worker_step_def worker_read_fails_def all_started_def
        split: if_splits tcp_worker.splits option.splits sum.splits)
qed (use assms in simp_all)

lemma all_started_run:
  "run tcp_nxt as s = Some t \<Longrightarrow> list_all tcp_calls as \<Longrightarrow> TServer False \<notin> set as \<Longrightarrow> all_started s \<Longrightarrow> all_started t"
  by (induction as arbitrary: s) (auto split: option.splits dest: all_started_step)

lemma two_texts:
  assumes "distinct bs" and "list_all (\<lambda>b. b = Text_of 0 \<or> b = Text_of 1) bs" and "length bs = 2"
  shows "set bs = {Text_of 0, Text_of 1}"
proof (rule card_subset_eq)
  show "set bs \<subseteq> {Text_of 0, Text_of 1}" using assms(2) by (auto simp: list_all_iff)
  show "card (set bs) = card {Text_of 0, Text_of 1}" using assms(1,3) by (simp add: distinct_card)
qed simp

lemma tcp_lines:
  "tcp_line (Text_of 0) = ''tcp worker echo: alpha'' @ [newline]"
  "tcp_line (Text_of 1) = ''tcp worker echo: beta'' @ [newline]"
  by (simp_all add: tcp_line_def client_text_def cstring_def newline_def)

lemma tcp_failures:
  "\<exists>u. run tcp_nxt [TServer True, TServer True, TServer True, TClientFails 1 e, TAcceptFails, TServer True, TWorker 0]
         tcp_start = Some u
     \<and> tclients u = [TConnect, TFailed (die_errno ''connect'' e)]
     \<and> tworkers u = [WDied (Undef ''store outside the buffer'')]"
  by (simp add: tcp_start_def tcp_server_def connect_client_fails_def tcp_worker_step_def worker_read_fails_def
      terminate_at_def)

text \<open>
  C36: As long as no call but \<open>fork\<close> fails, in every schedule each worker prints the complete text of one client, and no text is printed twice. Every
  schedule has fewer than 30 steps; when nothing can move any more and no \<open>fork\<close> has failed, the server has
  reaped all its children, and exactly the two lines were printed. The calls of \<open>fork\<close> are not tested: when a
  client was not started the server waits in \<open>accept\<close> for ever, and when a worker was not started its client's text is lost.
  A client whose \<open>connect\<close> fails stops with the error, and a worker started after a failed \<open>accept\<close>, which is not tested, stores
  outside its buffer.
\<close>

theorem tcp_echoes:
  assumes "tcp_setup None None = Inr s" and "run tcp_nxt as s = Some t" and "list_all tcp_calls as"
  shows "length as < 30 \<and> distinct (tout t) \<and> set (tout t) \<subseteq> {Text_of 0, Text_of 1}
    \<and> (stuck (only tcp_calls tcp_nxt) t \<longrightarrow>
         (if TServer False \<notin> set as
          then tpc t = TExit \<and> length (tout t) = 2
            \<and> tcp_line ` set (tout t) = {''tcp worker echo: alpha'' @ [newline], ''tcp worker echo: beta'' @ [newline]}
          else if TAbsent \<in> set (tclients t) then \<exists>i < 2. tpc t = TAccept i
          else tpc t = TExit \<and> length (tout t) = length (filter (\<lambda>w. w \<noteq> WAbsent) (tworkers t))))
    \<and> (\<exists>u. run tcp_nxt [TServer True, TServer True, TServer True, TClientFails 1 e, TAcceptFails, TServer True, TWorker 0] s
           = Some u
         \<and> tclients u = [TConnect, TFailed (die_errno ''connect'' e)]
         \<and> tworkers u = [WDied (Undef ''store outside the buffer'')])"
proof -
  have s: "s = tcp_start" using assms(1) by (simp add: tcp_setup_def listen_loopback_def tcp_start_def)
  have rn: "run tcp_nxt as tcp_start = Some t" using assms(2) s by simp
  then have r: "run tcp_sys as tcp_start = Some t" using assms(3) by (simp add: tcp_sys_def run_only list_all_iff)
  have ok: "tcp_ok t" using tcp.checked_run [OF r] .
  then have d: "distinct (tout t)" and l: "list_all (\<lambda>b. b = Text_of 0 \<or> b = Text_of 1) (tout t)"
    by (simp_all add: tcp_ok_def)
  have started: "all_started t" if "TServer False \<notin> set as"
    using all_started_run [OF rn assms(3) that] by (simp add: all_started_def tcp_start_def)
  have good: "tpc t = TExit \<and> length (tout t) = 2
      \<and> tcp_line ` set (tout t) = {''tcp worker echo: alpha'' @ [newline], ''tcp worker echo: beta'' @ [newline]}"
    if st: "stuck tcp_sys t" and nf: "TServer False \<notin> set as"
  proof -
    have "filter (\<lambda>w. w \<noteq> WAbsent) (tworkers t) = tworkers t"
      using started [OF nf] by (auto simp: all_started_def intro: filter_True)
    then have len: "tpc t = TExit" "length (tout t) = 2"
      using ok st started [OF nf] unfolding tcp_ok_def tcp.stuck_idle all_started_def by auto
    then show ?thesis using two_texts [OF d l] tcp_lines by simp
  qed
  have wait: "\<exists>i < 2. tpc t = TAccept i" if st: "stuck tcp_sys t" and ab: "TAbsent \<in> set (tclients t)"
  proof -
    have "length (filter (\<lambda>c. c \<noteq> TAbsent) (tclients t)) < length (tclients t)"
      using ab by (auto intro: length_filter_less)
    then show ?thesis using ok st ab unfolding tcp_ok_def tcp.stuck_idle by auto
  qed
  have rest: "tpc t = TExit \<and> length (tout t) = length (filter (\<lambda>w. w \<noteq> WAbsent) (tworkers t))"
    if "stuck tcp_sys t" and "TAbsent \<notin> set (tclients t)"
    using ok that unfolding tcp_ok_def tcp.stuck_idle by auto
  show ?thesis
    using tcp.run_bound [OF r] d l good wait rest tcp_failures [of e] s
    unfolding tcp_sys_def [symmetric] by (auto simp: list_all_iff)
qed

definition tcp_schedule :: "tcp_act list" where
  "tcp_schedule =
     [TServer True, TServer True, TServer True, TClient 1, TClient 1, TServer True, TServer True, TWorker 0,
      TWorker 0, TClient 0, TClient 0, TServer True, TServer True, TWorker 1, TWorker 1, TServer True, TServer True]"

definition tcp_end :: tcp where
  "tcp_end = \<lparr>tclients = [TGone, TGone], tbacklog = [], tdata = [], tworkers = [WGone, WGone], tpc = TExit,
     tout = [Text_of 1, Text_of 0]\<rparr>"

lemma tcp_schedule_run: "run tcp_nxt tcp_schedule tcp_start = Some tcp_end"
  by code_simp

lemma tcp_end_idle: "idle tcp_sys tcp_acts tcp_end"
  by code_simp

theorem tcp_echoes_witness:
  "run tcp_nxt tcp_schedule tcp_start = Some tcp_end
   \<and> tcp_line ` set (tout tcp_end) = {''tcp worker echo: alpha'' @ [newline], ''tcp worker echo: beta'' @ [newline]}"
proof -
  have s: "tcp_setup None None = Inr tcp_start"
    by (simp add: tcp_setup_def listen_loopback_def tcp_start_def)
  have "stuck (only tcp_calls tcp_nxt) tcp_end"
    using tcp_end_idle unfolding tcp.stuck_idle [symmetric] by (simp add: tcp_sys_def)
  moreover have "TServer False \<notin> set tcp_schedule" "list_all tcp_calls tcp_schedule"
    by (simp_all add: tcp_schedule_def)
  ultimately show ?thesis
    using tcp_echoes [OF s tcp_schedule_run, of EIO] tcp_schedule_run by (simp del: insert_iff image_set run.simps)
qed

text \<open>
  C37: Shutting down the writing side ends the request and not the connection: the server answers only
  after it has read all twelve bytes and the end of the data, and the client then reads the whole answer. Every
  schedule in which no call fails has fewer than 20 steps and leads to the end of both with this line printed, and no other
  line is ever printed. After a failed \<open>fork\<close>, which is not tested, the server waits in \<open>accept\<close> for ever; after a failed
  \<open>accept\<close>, which is not tested either, it waits for the client, and the client waits for an answer.
\<close>

theorem halfclose_answers:
  assumes "half_setup None None forked = Inr s" and "run half_nxt as s = Some t" and "list_all half_clean as"
  shows "if forked
    then length as < 20 \<and> (hserver t \<notin> {VAccept, VRead} \<longrightarrow> hgot t = length request_body \<and> shut_wr t)
      \<and> hout t \<in> {[], half_line}
      \<and> (\<exists>bs u. run half_nxt (as @ bs) s = Some u \<and> hserver u = VExit \<and> hclient u = HGone \<and> hout u = half_line)
      \<and> (\<exists>u. run half_nxt [HalfClient, HalfAcceptFails, HalfClient, HalfClient] s = Some u
           \<and> stuck (only half_clean half_nxt) u \<and> hserver u = VReap \<and> hclient u = HRead)
    else t = s \<and> stuck (only half_clean half_nxt) s \<and> hserver s = VAccept"
proof (cases forked)
  case True
  then have s: "s = half_start True" using assms(1) by (simp add: half_setup_def half_start_def)
  have r: "run half_sys as (half_start True) = Some t"
    using assms(2,3) s by (simp add: half_sys_def run_only list_all_iff)
  obtain bs u where u: "run half_sys (as @ bs) (half_start True) = Some u" "idle half_sys half_acts u"
    using half.run_to_idle [OF r] by blast
  have "hserver u = VExit \<and> hclient u = HGone \<and> hout u = half_line"
    using half.checked_run [OF u(1)] u(2) by (simp add: half_ok_def)
  moreover have "run half_nxt (as @ bs) s = Some u" using run_only_run u(1) s by (simp add: half_sys_def)
  moreover have "(hserver t \<notin> {VAccept, VRead} \<longrightarrow> hgot t = length request_body \<and> shut_wr t) \<and> hout t \<in> {[], half_line}"
    using half.checked_run [OF r] by (auto simp: half_ok_def request_body_def)
  ultimately show ?thesis
    using half.run_bound [OF r] half_accept_fails True unfolding s half_sys_def by auto
next
  case False
  then have s: "s = half_start False" using assms(1) by (simp add: half_setup_def half_start_def)
  have none: "half_nxt a s = None" if "half_clean a" for a
    using that by (cases a) (simp_all add: s half_start_def half_server_step_def half_client_step_def)
  then have "t = s" using assms(2,3) by (cases as) auto
  then show ?thesis using False none s by (simp add: stuck_def only_def half_start_def)
qed

theorem halfclose_answers_witness:
  "half_setup None None True = Inr (half_start True)
     \<and> (\<exists>bs u. run half_nxt ([] @ bs) (half_start True) = Some u \<and> hout u = half_line)"
proof -
  have "half_setup None None True = Inr (half_start True)" by (simp add: half_setup_def half_start_def)
  from this halfclose_answers [OF this, of "[]" "half_start True"] show ?thesis by auto
qed




text \<open>The echo over UDP works when no other datagram is first and no call fails; otherwise the program waits for ever.\<close>

lemma udp_outcome:
  "udp_main None None None None foreign write_res recv_res sendto_res None =
     (if foreign = [] \<and> write_res = None \<and> recv_res = None \<and> sendto_res = None
      then Some (Inr (''connected udp echo: udp payload'' @ [newline])) else None)"
proof (cases foreign)
  case Nil
  then show ?thesis
    by (cases write_res; cases recv_res; cases sendto_res)
      (simp_all add: udp_main_def udp_server_def udp_client_def terminate_at_def cstring_def newline_def)
next
  case (Cons f fs)
  then show ?thesis
    by (cases f; cases recv_res) (simp_all add: udp_main_def udp_server_def udp_client_def Let_def)
qed

text \<open>The lookup reports the number of addresses it was given.\<close>

lemma count_loop_length: "count_loop xs n = n + int (length xs)"
  by (induction xs arbitrary: n) auto

lemma getaddrinfo_counts:
  "getaddrinfo_main msg (Inr xs) = Inr (''resolved loopback stream endpoints='' @ fmt_d (int (length xs)) @ [newline])"
  by (simp add: getaddrinfo_main_def count_loop_length)

end
