(* ===== verification/IoPrograms.thy ===== *)
theory IoPrograms
  imports Signals
begin

unbundle bit_operations_syntax

text \<open>
  The programs of \<open>AlternativeIO/\<close> (\<open>select\<close>, \<open>poll\<close>, edge-triggered \<open>epoll\<close>, \<open>eventfd\<close> and
  \<open>signalfd\<close>) and the two programs of \<open>SharedMemory/\<close> without synchronisation, the sealed memory file and the private
  mapping. The bytes in a pipe are those that \<open>write_all\<close> could write, its results being the list \<open>ws\<close>; the programs do not test
  what it returns.
\<close>

subsection \<open>Waiting for a pipe\<close>

text \<open>The tail the programs share: read up to \<open>sz - 1\<close> bytes into a buffer, terminate and print them.\<close>

definition read_print :: "nat \<Rightarrow> string \<Rightarrow> read_res \<Rightarrow> string res" where
  "read_print sz label r =
     (case sys_read (sz - 1) r of
        (n, bytes) \<Rightarrow> (case terminate_at sz bytes n of Inl h \<Rightarrow> Inl h | Inr buffer \<Rightarrow> Inr (label @ buffer)))"

text \<open>A \<open>read\<close> of a descriptor with the given bytes, which may fail; the programs below do not test it.\<close>

definition read_from :: "string \<Rightarrow> errno option \<Rightarrow> read_res" where
  "read_from bytes fault = (case fault of None \<Rightarrow> Avail bytes | Some e \<Rightarrow> RdErr e)"

definition select_text :: string where
  "select_text = ''ready via select'' @ [newline]"

definition select_main ::
    "errno option \<Rightarrow> write_res list \<Rightarrow> errno option \<Rightarrow> errno option \<Rightarrow> string res option" where
  "select_main pipe_res ws select_res fault =
     (case pipe_res of
        Some e \<Rightarrow> Some (Inl (die_errno ''pipe'' e))
      | None \<Rightarrow>
          (case write_all ws select_text 17 of
             None \<Rightarrow> None
           | Some (r, piped, rest) \<Rightarrow>
               (case select_res of
                  Some e \<Rightarrow> Some (Inl (die_errno ''select'' e))
                | None \<Rightarrow>
                    if piped = [] then Some (Inl (die ''select timed out''))
                    else Some (read_print 64 [] (read_from piped fault)))))"

text \<open>
  The three pipes of \<open>poll_many_pipes.c\<close>; each has the result of \<open>pipe\<close>, those of the writes and that of
  the \<open>read\<close>.
\<close>

definition PIPES :: nat where
  "PIPES = 3"

definition pipe_text :: "nat \<Rightarrow> string" where
  "pipe_text i = fst (snprintf 32 (''pipe-'' @ fmt_d (int i + 1) @ [newline]))"

fun open_pipes ::
    "nat \<Rightarrow> (errno option \<times> write_res list \<times> errno option) list \<Rightarrow> (string \<times> errno option) list res option" where
  "open_pipes i [] = Some (Inr [])"
| "open_pipes i ((pipe_res, ws, fault) # ps) =
     (case pipe_res of
        Some e \<Rightarrow> Some (Inl (die_errno ''pipe'' e))
      | None \<Rightarrow>
          (case write_all ws (pipe_text i) (of_nat (length (pipe_text i))) of
             None \<Rightarrow> None
           | Some (r, piped, rest) \<Rightarrow>
               (case open_pipes (i + 1) ps of
                  None \<Rightarrow> None
                | Some (Inl h) \<Rightarrow> Some (Inl h)
                | Some (Inr pipes) \<Rightarrow> Some (Inr ((piped, fault) # pipes)))))"

text \<open>The loop over the reported descriptors; \<open>POLLIN\<close> is set where there are bytes.\<close>

fun report_pipes :: "(string \<times> errno option) list \<Rightarrow> string res" where
  "report_pipes [] = Inr []"
| "report_pipes ((piped, fault) # pipes) =
     (if piped = [] then report_pipes pipes
      else
        (case read_print 32 ''poll saw '' (read_from piped fault) of
           Inl h \<Rightarrow> Inl h
         | Inr out \<Rightarrow> (case report_pipes pipes of Inl h \<Rightarrow> Inl h | Inr outs \<Rightarrow> Inr (out @ outs))))"

definition poll_many_main :: "(errno option \<times> write_res list \<times> errno option) list \<Rightarrow> bool \<Rightarrow> string res option" where
  "poll_many_main ps interrupted =
     (case open_pipes 0 (take PIPES ps) of
        None \<Rightarrow> None
      | Some (Inl h) \<Rightarrow> Some (Inl h)
      | Some (Inr pipes) \<Rightarrow>
          if interrupted \<or> list_all (\<lambda>(b, fault). b = []) pipes
          then Some (Inl (die ''poll did not report readiness''))
          else Some (report_pipes pipes))"

text \<open>
  The edge-triggered program: the descriptor is registered before the write, which is the edge. \<open>fault\<close> is the result of setting the
  flags, \<open>registered\<close> that of \<open>epoll_ctl\<close>, which is not tested, and \<open>interrupted\<close> an error of \<open>epoll_wait\<close>.
\<close>

definition edge_text :: string where
  "edge_text = ''edge-triggered epoll'' @ [newline]"

definition edge_main ::
    "errno option \<Rightarrow> 32 word fdtab \<Rightarrow> int \<Rightarrow> errno option \<Rightarrow> errno option \<Rightarrow> bool \<Rightarrow> write_res list
     \<Rightarrow> bool \<Rightarrow> errno option \<Rightarrow> (string res \<times> 32 word fdtab) option" where
  "edge_main pipe_res tab fd fault create_res registered ws interrupted read_fault =
     (case pipe_res of
        Some e \<Rightarrow> Some (Inl (die_errno ''pipe'' e), tab)
      | None \<Rightarrow>
          (case set_nonblock tab fd fault of
             (r, tab1) \<Rightarrow>
               if r = -1 then Some (Inl (die_errno ''set_nonblock'' (case fault of Some e \<Rightarrow> e | None \<Rightarrow> EBADF)), tab1)
               else
                 (case create_res of
                    Some e \<Rightarrow> Some (Inl (die_errno ''epoll_create1'' e), tab1)
                  | None \<Rightarrow>
                      (case write_all ws edge_text 21 of
                         None \<Rightarrow> None
                       | Some (n, piped, rest) \<Rightarrow>
                           if interrupted \<or> \<not> registered \<or> piped = []
                           then Some (Inl (die ''epoll_wait failed''), tab1)
                           else Some (read_print 64 [] (read_from piped read_fault), tab1)))))"

subsection \<open>The event counter\<close>

text \<open>
  The counter has 64 bits and never holds the largest value: a \<open>write\<close> that would reach it waits, and one of that
  value is an error. A \<open>read\<close> takes the whole value, and waits while it is 0.
\<close>

definition eventfd_write :: "64 word \<Rightarrow> 64 word \<Rightarrow> 64 word option" where
  "eventfd_write v counter =
     (if v = - 1 \<or> (- 1) - counter \<le> v then None else Some (counter + v))"

definition eventfd_read :: "64 word \<Rightarrow> (64 word \<times> 64 word) option" where
  "eventfd_read counter = (if counter = 0 then None else Some (counter, 0))"

text \<open>
  The program: the parent's \<open>read\<close> waits until the child has written. \<open>child\<close> is the result of the untested \<open>fork\<close>
  and of the untested write of the child. \<open>None\<close>: the \<open>read\<close> waits for ever, as after a failure of one of them.
\<close>

definition eventfd_main ::
    "errno option \<Rightarrow> errno option option \<Rightarrow> errno option \<Rightarrow> (string \<times> 64 word) res option" where
  "eventfd_main eventfd_res child read_res =
     (case eventfd_res of
        Some e \<Rightarrow> Some (Inl (die_errno ''eventfd'' e))
      | None \<Rightarrow>
          (case (if child = Some None then eventfd_write 5 0 else Some 0) of
             None \<Rightarrow> None
           | Some counter \<Rightarrow>
               (case read_res of
                  Some e \<Rightarrow> Some (Inl (die_errno ''read eventfd'' e))
                | None \<Rightarrow>
                    map_option (\<lambda>(value, counter'). Inr (''eventfd counter='' @ fmt_d (uint value) @ [newline], counter'))
                      (eventfd_read counter))))"

subsection \<open>Signals through a descriptor\<close>

text \<open>The value of a pending signal is here the process number of its sender; \<open>read\<close> takes the oldest instance.\<close>

definition signalfd_read :: "nat \<Rightarrow> sigs \<Rightarrow> ((nat \<times> int) \<times> sigs) option" where
  "signalfd_read n s =
     (case sig_values n s of
        [] \<Rightarrow> None
      | p # ps \<Rightarrow> Some ((n, p), s\<lparr>pending := remove1 (n, p) (pending s)\<rparr>))"

definition signalfd_main ::
    "sigs \<Rightarrow> int \<Rightarrow> errno option \<Rightarrow> errno option \<Rightarrow> errno option \<Rightarrow> string res option" where
  "signalfd_main s pid mask_res signalfd_res read_res =
     (case mask_res of
        Some e \<Rightarrow> Some (Inl (die_errno ''sigprocmask'' e))
      | None \<Rightarrow>
          (case signalfd_res of
             Some e \<Rightarrow> Some (Inl (die_errno ''signalfd'' e))
           | None \<Rightarrow>
               (case read_res of
                  Some e \<Rightarrow> Some (Inl (die_errno ''read signalfd'' e))
                | None \<Rightarrow>
                    (case signalfd_read SIGUSR1 (sig_send SIGUSR1 pid (sig_block SIGUSR1 s)) of
                       None \<Rightarrow> None
                     | Some ((signo, sender), s') \<Rightarrow>
                         Some (Inr (''signalfd received signo='' @ fmt_d (int signo)
                                    @ '' pid='' @ fmt_d sender @ [newline]))))))"

subsection \<open>The sealed memory file\<close>

text \<open>
  A memory file with its offset, which parent and child share, and its seals. An operation that a seal forbids fails with
  \<open>EPERM\<close>; once \<open>F_SEAL_SEAL\<close> is set no seal can be added.
\<close>

definition F_SEAL_SEAL :: "32 word" where
  "F_SEAL_SEAL = 1"

definition F_SEAL_SHRINK :: "32 word" where
  "F_SEAL_SHRINK = 2"

definition F_SEAL_GROW :: "32 word" where
  "F_SEAL_GROW = 4"

definition F_SEAL_WRITE :: "32 word" where
  "F_SEAL_WRITE = 8"

record memfile =
  mbytes :: string
  moff :: nat
  mseals :: "32 word"

definition sealed :: "32 word \<Rightarrow> memfile \<Rightarrow> bool" where
  "sealed seal f \<longleftrightarrow> mseals f AND seal \<noteq> 0"

datatype memop = MWrite string | MTruncate nat | MSeek nat | MRead nat | MAddSeals "32 word"

definition write_at :: "nat \<Rightarrow> string \<Rightarrow> string \<Rightarrow> string" where
  "write_at off bs old =
     take off old @ replicate (off - length old) (CHR 0x00) @ bs @ drop (off + length bs) old"

fun memfd_op :: "memop \<Rightarrow> memfile \<Rightarrow> errno + memfile" where
  "memfd_op (MWrite bs) f =
     (if bs = [] then Inr f
      else if sealed F_SEAL_WRITE f \<or> sealed F_SEAL_GROW f \<and> length (mbytes f) < moff f + length bs then Inl EPERM
      else Inr (f\<lparr>mbytes := write_at (moff f) bs (mbytes f), moff := moff f + length bs\<rparr>))"
| "memfd_op (MTruncate n) f =
     (if sealed F_SEAL_SHRINK f \<and> n < length (mbytes f) \<or> sealed F_SEAL_GROW f \<and> length (mbytes f) < n then Inl EPERM
      else Inr (f\<lparr>mbytes := take n (mbytes f) @ replicate (n - length (mbytes f)) (CHR 0x00)\<rparr>))"
| "memfd_op (MSeek n) f = Inr (f\<lparr>moff := n\<rparr>)"
| "memfd_op (MRead n) f = Inr (f\<lparr>moff := max (moff f) (min (moff f + n) (length (mbytes f)))\<rparr>)"
| "memfd_op (MAddSeals v) f =
     (if sealed F_SEAL_SEAL f then Inl EPERM else Inr (f\<lparr>mseals := mseals f OR v\<rparr>))"

text \<open>A sequence of operations by any processes; one that fails changes nothing.\<close>

fun memfd_ops :: "memop list \<Rightarrow> memfile \<Rightarrow> memfile" where
  "memfd_ops [] f = f"
| "memfd_ops (op # ops) f = memfd_ops ops (case memfd_op op f of Inl e \<Rightarrow> f | Inr f' \<Rightarrow> f')"

definition create_memfd :: "errno option \<Rightarrow> memfile res" where
  "create_memfd create_res =
     (case create_res of
        Some e \<Rightarrow> Inl (die_errno ''memfd_create'' e)
      | None \<Rightarrow> Inr \<lparr>mbytes = [], moff = 0, mseals = 0\<rparr>)"

definition memfd_config :: string where
  "memfd_config = ''workers=4'' @ [newline] @ ''mode=readonly-after-seal'' @ [newline]"

definition config_seals :: "32 word" where
  "config_seals = F_SEAL_WRITE OR F_SEAL_GROW OR F_SEAL_SHRINK"

text \<open>
  The program up to the seals; the bytes written are those that the kernel took. \<open>seal_res\<close> is an error of \<open>fcntl\<close>
  other than that of a seal.
\<close>

definition memfd_prepare :: "errno option \<Rightarrow> write_res list \<Rightarrow> errno option \<Rightarrow> memfile res option" where
  "memfd_prepare create_res ws seal_res =
     (case create_memfd create_res of
        Inl h \<Rightarrow> Some (Inl h)
      | Inr f \<Rightarrow>
          (case write_all ws memfd_config (of_nat (length memfd_config)) of
             None \<Rightarrow> None
           | Some (r, out, rest) \<Rightarrow>
               (let f1 = (case memfd_op (MWrite out) f of Inl e \<Rightarrow> f | Inr g \<Rightarrow> g)
                in case (case seal_res of Some e \<Rightarrow> Inl e | None \<Rightarrow> memfd_op (MAddSeals config_seals) f1) of
                     Inl e \<Rightarrow> Some (Inl (die_errno ''F_ADD_SEALS'' e))
                   | Inr f2 \<Rightarrow> Some (Inr f2))))"

text \<open>The child moves the offset back, reads from there and prints; its \<open>read\<close> is not tested.\<close>

definition memfd_child :: "errno option \<Rightarrow> memfile \<Rightarrow> string res \<times> memfile" where
  "memfd_child fault f =
     (let g = f\<lparr>moff := 0\<rparr>;
          bytes = drop (moff g) (mbytes g);
          g' = (case fault of Some e \<Rightarrow> g | None \<Rightarrow> g\<lparr>moff := moff g + min 127 (length bytes)\<rparr>)
      in (read_print 128 (''child mapped sealed config:'' @ [newline]) (read_from bytes fault), g'))"

definition hex_digit :: "32 word \<Rightarrow> char" where
  "hex_digit w = ''0123456789abcdef'' ! unat w"

text \<open>\<open>%x\<close> of a value below 16, as the combinations of the four seals are.\<close>

definition seals_line :: "memfile \<Rightarrow> string" where
  "seals_line f = ''seals=0x'' @ [hex_digit (mseals f)] @ [newline]"

text \<open>
  The rest: other processes that have opened the file act before the child reads it (\<open>ops\<close>) and before the parent asks
  for the seals (\<open>ops'\<close>). The result of \<open>fork\<close> is compared with 0 only; after a failure \<open>waitpid (-1, ...)\<close> finds no child.
\<close>

definition memfd_finish ::
    "memop list \<Rightarrow> memop list \<Rightarrow> bool \<Rightarrow> errno option \<Rightarrow> memfile \<Rightarrow> (string res \<times> string) res" where
  "memfd_finish ops ops' forked fault f =
     (if forked then
        (case memfd_child fault (memfd_ops ops f) of
           (out, f1) \<Rightarrow> Inr (out, seals_line (memfd_ops ops' f1)))
      else Inl (die_errno ''waitpid'' ECHILD))"

subsection \<open>The private mapping\<close>

text \<open>
  Each process sees its own copy of the page after \<open>fork\<close>: \<open>True\<close> stands for the parent. The page holds C
  strings, and \<open>strcpy\<close> replaces the beginning of it.
\<close>

type_synonym address_spaces = "bool \<Rightarrow> string option"

definition strcpy_page :: "bool \<Rightarrow> string \<Rightarrow> address_spaces \<Rightarrow> address_spaces" where
  "strcpy_page who text mem = mem(who \<mapsto> text @ [CHR 0x00] @ drop (length text + 1) (case mem who of Some page \<Rightarrow> page | None \<Rightarrow> []))"

definition fork_private :: "address_spaces \<Rightarrow> address_spaces" where
  "fork_private mem = mem(False := mem True)"

definition page_text :: "bool \<Rightarrow> address_spaces \<Rightarrow> string" where
  "page_text who mem = (case mem who of Some page \<Rightarrow> cstring page | None \<Rightarrow> [])"

definition cow_main :: "errno option \<Rightarrow> bool \<Rightarrow> string res" where
  "cow_main mmap_res forked =
     (case mmap_res of
        Some e \<Rightarrow> Inl (die_errno ''mmap'' e)
      | None \<Rightarrow>
          let m0 = (\<lambda>who. if who then Some (replicate 4096 (CHR 0x00)) else None);
              m1 = strcpy_page True ''parent-before-fork'' m0
          in if \<not> forked then Inl (die_errno ''waitpid'' ECHILD)
             else
               (let m2 = strcpy_page False ''child-private-copy'' (fork_private m1)
                in Inr (''child sees: '' @ page_text False m2 @ [newline]
                        @ ''parent still sees: '' @ page_text True m2 @ [newline])))"

subsection \<open>Lemmas\<close>

lemmas seal_defs = F_SEAL_SEAL_def F_SEAL_SHRINK_def F_SEAL_GROW_def F_SEAL_WRITE_def config_seals_def

text \<open>The three seals together, and what they give for each operation.\<close>

definition config_sealed :: "memfile \<Rightarrow> bool" where
  "config_sealed f \<longleftrightarrow> mseals f AND config_seals = config_seals"

lemma config_sealed_each:
  assumes "config_sealed f"
  shows "sealed F_SEAL_WRITE f" "sealed F_SEAL_GROW f" "sealed F_SEAL_SHRINK f"
proof -
  have part: "mseals f AND seal = config_seals AND seal" if "config_seals AND seal = seal" for seal
    using assms that by (metis config_sealed_def and.assoc)
  show "sealed F_SEAL_WRITE f" "sealed F_SEAL_GROW f" "sealed F_SEAL_SHRINK f"
    by (simp_all add: sealed_def part seal_defs)
qed

lemma config_sealed_op:
  assumes "config_sealed f" and "memfd_op op f = Inr g"
  shows "config_sealed g \<and> mbytes g = mbytes f"
proof (cases op)
  case (MAddSeals v)
  have "(mseals f OR v) AND config_seals = config_seals"
  proof (rule bit_word_eqI)
    fix n
    have "bit config_seals n \<Longrightarrow> bit (mseals f) n" using assms(1) by (metis config_sealed_def bit_and_iff)
    then show "bit ((mseals f OR v) AND config_seals) n = bit config_seals n" by (auto simp: bit_simps)
  qed
  then show ?thesis using assms MAddSeals by (auto simp: config_sealed_def split: if_splits)
qed (use assms config_sealed_each [OF assms(1)] in \<open>auto simp: config_sealed_def split: if_splits\<close>)

lemma config_sealed_ops:
  "config_sealed f \<Longrightarrow> config_sealed (memfd_ops ops f) \<and> mbytes (memfd_ops ops f) = mbytes f"
proof (induction ops arbitrary: f)
  case (Cons op ops)
  show ?case
  proof (cases "memfd_op op f")
    case (Inr g)
    then show ?thesis using config_sealed_op [OF Cons.prems Inr] Cons.IH [of g] by simp
  qed (use Cons in simp)
qed simp

definition no_new_seals :: "memop \<Rightarrow> bool" where
  "no_new_seals op = (case op of MAddSeals v \<Rightarrow> False | _ \<Rightarrow> True)"

lemma same_seals: "list_all no_new_seals ops \<Longrightarrow> mseals (memfd_ops ops f) = mseals f"
proof (induction ops arbitrary: f)
  case (Cons op ops)
  have "mseals g = mseals f" if "memfd_op op f = Inr g" for g
    using that Cons.prems by (cases op) (auto simp: no_new_seals_def split: if_splits)
  then show ?case using Cons by (auto split: sum.split)
qed simp

lemma memfd_config_facts: "length memfd_config = 35" "CHR 0x00 \<notin> set memfd_config"
  by (simp_all add: memfd_config_def newline_def)

lemma write_all_whole:
  assumes "list_all retryable ws" and "length text \<le> sum_list (map accepted ws)" and "length text < 2 ^ 64"
  shows "\<exists>rest. write_all ws text (of_nat (length text)) = Some (sint (of_nat (length text) :: size_t), text, rest)"
  using write_all_returns [of ws "of_nat (length text)" "text"] assms
  by (auto simp: unat_of_nat_size list_all_iff)

lemma read_print_fits:
  "length bs < sz \<Longrightarrow> CHR 0x00 \<notin> set bs \<Longrightarrow> read_print sz label (read_from bs None) = Inr (label @ bs)"
  by (simp add: read_print_def read_from_def terminate_at_def cstring_id)

lemma read_print_fails: "read_print sz label (read_from bs (Some e)) = Inl (Undef ''store outside the buffer'')"
  by (simp add: read_print_def read_from_def terminate_at_def)

subsection \<open>Properties\<close>

text \<open>
  C40: Once the seals are set nobody can change the configuration: whatever operations the processes that
  have opened the file then try, the bytes stay what the parent wrote and the three seals stay set. When the kernel has taken all
  bytes the child prints the whole configuration, unless its \<open>read\<close>, which is not tested, fails and it stores outside its buffer;
  the parent prints the seals 0xe unless somebody has added another. A failed \<open>fork\<close>, which is not tested, ends the parent with
  the error of \<open>waitpid\<close>.
\<close>

theorem sealed_config_stays:
  assumes "memfd_prepare None ws None = Some (Inr f)"
    and "list_all retryable ws" and "length memfd_config \<le> sum_list (map accepted ws)"
  shows "mbytes (memfd_ops ops f) = memfd_config \<and> config_sealed (memfd_ops ops f)
    \<and> (\<exists>line. memfd_finish ops ops' forked fault f =
          (if forked then
             Inr (case fault of
                    None \<Rightarrow> Inr (''child mapped sealed config:'' @ [newline] @ memfd_config)
                  | Some e \<Rightarrow> Inl (Undef ''store outside the buffer''), line)
           else Inl (die_errno ''waitpid'' ECHILD))
        \<and> (list_all no_new_seals (ops @ ops') \<longrightarrow> line = ''seals=0xe'' @ [newline]))"
proof -
  have ne: "memfd_config \<noteq> []" using memfd_config_facts(1) by auto
  obtain rest where w: "write_all ws memfd_config (of_nat (length memfd_config))
      = Some (sint (of_nat (length memfd_config) :: size_t), memfd_config, rest)"
    using write_all_whole [OF assms(2,3)] memfd_config_facts(1) by auto
  have f: "f = \<lparr>mbytes = memfd_config, moff = 35, mseals = config_seals\<rparr>"
    using assms(1) w ne
    by (simp add: memfd_prepare_def create_memfd_def sealed_def write_at_def memfd_config_facts(1))
  then have "config_sealed f" by (simp add: config_sealed_def)
  from config_sealed_ops [OF this, of ops] have g: "config_sealed (memfd_ops ops f)"
    "mbytes (memfd_ops ops f) = memfd_config"
    using f by auto
  obtain f1 where f1: "memfd_child fault (memfd_ops ops f) =
      (case fault of
         None \<Rightarrow> Inr (''child mapped sealed config:'' @ [newline] @ memfd_config)
       | Some e \<Rightarrow> Inl (Undef ''store outside the buffer''), f1)" "mseals f1 = mseals (memfd_ops ops f)"
    using read_print_fits [of memfd_config 128 "''child mapped sealed config:'' @ [newline]"] memfd_config_facts g(2)
    by (cases fault) (simp_all add: memfd_child_def read_print_fails)
  have "seals_line (memfd_ops ops' f1) = ''seals=0xe'' @ [newline]" if "list_all no_new_seals (ops @ ops')"
    using same_seals [of ops f] same_seals [of ops' f1] that f f1(2)
    by (simp add: seals_line_def hex_digit_def seal_defs)
  then show ?thesis using g f1(1) by (auto simp: memfd_finish_def)
qed

theorem sealed_config_stays_witness:
  "memfd_finish [MSeek 0, MWrite ''workers=9'', MTruncate 0] [] True None
      \<lparr>mbytes = memfd_config, moff = 35, mseals = config_seals\<rparr>
    = Inr (Inr (''child mapped sealed config:'' @ [newline] @ memfd_config), ''seals=0xe'' @ [newline])"
proof -
  have w: "write_all [Accept 40] memfd_config 35 = Some (sint (35 :: size_t), memfd_config, [])"
    using write_all_one_call [of 35 40 memfd_config "[]"] memfd_config_facts(1) by simp
  have "memfd_prepare None [Accept 40] None = Some (Inr \<lparr>mbytes = memfd_config, moff = 35, mseals = config_seals\<rparr>)"
    using w memfd_config_facts
    by (auto simp: memfd_prepare_def create_memfd_def sealed_def write_at_def)
  from sealed_config_stays [OF this, of "[MSeek 0, MWrite ''workers=9'', MTruncate 0]" "[]" True None] show ?thesis
    by (auto simp: retryable_def memfd_config_facts no_new_seals_def simp del: memfd_ops.simps)
qed

text \<open>The programs that wait for a pipe print the text when it was written completely, and stop when nothing was.\<close>

lemma select_prints:
  assumes "list_all retryable ws" and "17 \<le> sum_list (map accepted ws)"
  shows "select_main None ws None None = Some (Inr select_text)"
proof -
  have f: "length select_text = 17" "CHR 0x00 \<notin> set select_text" by (simp_all add: select_text_def newline_def)
  obtain rest where "write_all ws select_text 17 = Some (sint (17 :: size_t), select_text, rest)"
    using write_all_whole [of ws select_text] assms f(1) by auto
  then show ?thesis using f read_print_fits [of select_text 64 "[]"] by (auto simp: select_main_def)
qed

lemma pipe_text_facts: "i < 3 \<Longrightarrow> length (pipe_text i) = 7 \<and> CHR 0x00 \<notin> set (pipe_text i)"
proof -
  assume "i < 3"
  then have "i = 0 \<or> i = 1 \<or> i = 2" by linarith
  then show ?thesis by (auto simp: pipe_text_def snprintf_def fmt_simps)
qed

lemma poll_many_prints:
  assumes "length wss = 3" and "list_all (\<lambda>ws. list_all retryable ws \<and> 7 \<le> sum_list (map accepted ws)) wss"
  shows "poll_many_main (map (\<lambda>ws. (None, ws, None)) wss) False
    = Some (Inr (concat (map (\<lambda>i. ''poll saw '' @ pipe_text i) [0, 1, 2])))"
proof -
  obtain w0 w1 w2 where wss: "wss = [w0, w1, w2]"
    using assms(1) by (auto simp: length_Suc_conv numeral_eq_Suc)
  have "\<exists>rest. write_all ws (pipe_text i) 7 = Some (sint (7 :: size_t), pipe_text i, rest)"
    if "i < 3" "ws \<in> set wss" for i ws
    using write_all_whole [of ws "pipe_text i"] pipe_text_facts [OF that(1)] assms(2) that(2)
    by (auto simp: list_all_iff)
  then obtain r0 r1 r2 where
    "write_all w0 (pipe_text 0) 7 = Some (sint (7 :: size_t), pipe_text 0, r0)"
    "write_all w1 (pipe_text 1) 7 = Some (sint (7 :: size_t), pipe_text 1, r1)"
    "write_all w2 (pipe_text 2) 7 = Some (sint (7 :: size_t), pipe_text 2, r2)"
    using wss by fastforce
  moreover have "read_print 32 ''poll saw '' (read_from (pipe_text i) None) = Inr (''poll saw '' @ pipe_text i)" if "i < 3" for i
    using read_print_fits [of "pipe_text i" 32 "''poll saw ''"] pipe_text_facts [OF that] by simp
  moreover have "pipe_text i \<noteq> []" if "i < 3" for i using pipe_text_facts [OF that] by auto
  ultimately show ?thesis
    using pipe_text_facts by (simp add: poll_many_main_def PIPES_def wss numeral_2_eq_2)
qed

lemma edge_prints:
  assumes "tab fd = Some flags" and "list_all retryable ws" and "21 \<le> sum_list (map accepted ws)"
  shows "\<exists>tab'. edge_main None tab fd None None True ws False None = Some (Inr edge_text, tab')
    \<and> (\<exists>v. tab' fd = Some v \<and> v AND O_NONBLOCK = O_NONBLOCK)"
proof -
  have f: "length edge_text = 21" "CHR 0x00 \<notin> set edge_text" by (simp_all add: edge_text_def newline_def)
  obtain rest where w: "write_all ws edge_text 21 = Some (sint (21 :: size_t), edge_text, rest)"
    using write_all_whole [of ws edge_text] assms(2,3) f(1) by auto
  have "(flags OR O_NONBLOCK) AND O_NONBLOCK = O_NONBLOCK"
    by (rule bit_word_eqI) (auto simp: bit_simps)
  then show ?thesis
    using f w set_nonblock_bit [of tab fd flags] assms(1) read_print_fits [of edge_text 64 "[]"] by (auto simp: edge_main_def)
qed

text \<open>The counter never reaches the largest value, and the program prints the value the child has written.\<close>

lemma eventfd_counter_range: "eventfd_write v counter = Some counter' \<Longrightarrow> counter' \<noteq> - 1 \<and> counter \<le> counter'"
proof -
  assume w: "eventfd_write v counter = Some counter'"
  have "unat (- 1 - counter) = unat (- 1 :: 64 word) - unat counter"
    by (rule unat_sub) (rule word_order.extremum)
  moreover have "v < - 1 - counter" "counter' = counter + v"
    using w by (auto simp: eventfd_write_def split: if_splits)
  ultimately have sum: "unat counter + unat v < 2 ^ 64 - 1"
    by (simp add: word_less_nat_alt unsigned_minus_1_eq_mask mask_eq_exp_minus_1)
  then have "unat counter' = unat counter + unat v"
    using \<open>counter' = counter + v\<close> by (simp add: unat_word_ariths)
  moreover have "unat (- 1 :: 64 word) = 2 ^ 64 - 1"
    by (simp add: unsigned_minus_1_eq_mask mask_eq_exp_minus_1)
  ultimately show ?thesis using sum by (auto simp: word_le_nat_alt)
qed

lemma eventfd_outcome:
  "eventfd_main None child None
     = (if child = Some None then Some (Inr (''eventfd counter=5'' @ [newline], 0)) else None)"
proof -
  have "\<not> (- 1 :: 64 word) \<le> 5"
    by (simp add: word_le_nat_alt unsigned_minus_1_eq_mask mask_eq_exp_minus_1)
  then show ?thesis by (simp add: eventfd_main_def eventfd_write_def eventfd_read_def fmt_simps)
qed

text \<open>The sender that \<open>signalfd\<close> reports is the program itself unless the signal was already pending.\<close>

lemma signalfd_outcome:
  "signalfd_main s pid None None None =
     Some (Inr (''signalfd received signo=10 pid=''
       @ fmt_d (case sig_values SIGUSR1 s of [] \<Rightarrow> pid | sender # rest \<Rightarrow> sender) @ [newline]))"
proof -
  have "SIGUSR1 \<in> fst ` set (pending s) \<longleftrightarrow> sig_values SIGUSR1 s \<noteq> []"
    by (force simp: sig_values_def filter_empty_conv)
  then have "sig_values SIGUSR1 (sig_send SIGUSR1 pid (sig_block SIGUSR1 s))
      = (if sig_values SIGUSR1 s = [] then [pid] else sig_values SIGUSR1 s)"
    by (auto simp: sig_send_def sig_block_def sig_values_def SIGUSR1_def)
  then show ?thesis
    by (auto simp: signalfd_main_def signalfd_read_def SIGUSR1_def fmt_simps split: list.split)
qed

lemma cow_outcome:
  "cow_main None True = Inr (''child sees: child-private-copy'' @ [newline]
     @ ''parent still sees: parent-before-fork'' @ [newline])"
  by (simp add: cow_main_def strcpy_page_def fork_private_def page_text_def cstring_def)

end
