(* ===== verification/Spec2Isabelle.thy ===== *)
theory Spec2Isabelle
  imports CalcServer CounterPrograms SemPrograms Barrier FileLocks QueuePrograms Reactor PipePrograms
    SocketPrograms EpollEcho InetPrograms IoPrograms
begin

text \<open>
  Verification of the Linux inter-process communication programs of this repository: 47 small C
  programs, one source file each, in the directories \<open>Pipes\<close>, \<open>Sockets\<close>, \<open>InternetSockets\<close>,
  \<open>MessageQueues\<close>, \<open>SharedMemory\<close>, \<open>Semaphores\<close>, \<open>FileLocking\<close>, \<open>AlternativeIO\<close> and \<open>Signals\<close>, and the helper
  library \<open>Common/common.c\<close> that all of them link. The programs do not call each other, except for the client and
  the server of the calculator; what they share is the helper library, the kernel
  objects, and the way they are written: a process forks, the processes work on a shared object, and the
  parent waits for its children.

  \<^bold>\<open>How programs are modelled.\<close> Straight-line code is a function over the results of its system calls: a call that
  can fail has an argument of type \<open>errno option\<close>, or a list of results where the code calls in a loop. A process stops early with
  a value of type \<open>halt\<close>: an exit with its message (\<open>die\<close>, \<open>die_errno\<close>), a signal, or undefined behaviour of C, such
  as an access outside a buffer. \<open>None\<close> stands for a call that never returns. A program with several processes is a record of their
  program counters and of the shared objects, and a function \<open>nxt\<close> from an action and a state to the next state, \<open>None\<close>
  when the process is blocked. A step is one access to something the processes share. A schedule is a list of actions, and
  the theorems hold for every schedule. Actions also stand for what the environment decides: a
  call that fails, a timeout, the arrival of a signal, the order in which events are reported. \<open>only\<close> restricts a system to some of its
  actions, for instance to those that are no failures. Where a program creates a file, a queue or a name, the model also says
  whether it is left behind when the program ends.

  \<^bold>\<open>The theories.\<close>

  \<^item> \<open>Prelude\<close>: error numbers, ways to stop, number formats of \<open>printf\<close>, C strings and buffers.

  \<^item> \<open>Interleave\<close>: schedules, stuck states, restriction of the actions, and the locales for systems of
  processes. \<open>invariant_system\<close> and \<open>terminating_system\<close> state what an invariant and a decreasing measure give;
  \<open>explored_system\<close> is for small closed systems, whose states are enumerated level by level by the
  simplifier; \<open>linear_system\<close> is for processes that hand the control to each other. Every program below
  interprets one of them on its own step function.

  \<^item> \<open>Common\<close>: \<open>Common/common.c\<close>. \<open>write_all\<close> over a list of results of \<open>write\<close>, with a 64-bit count; the same on a socket, where
  \<open>EPIPE\<close> comes with the signal that ends the process; \<open>set_nonblock\<close> on
  the flag words of descriptors; \<open>wait_for_pid\<close>, \<open>reap_all_children\<close>, \<open>xclose\<close>.

  \<^item> \<open>CalcParser\<close>, \<open>CalcSpec\<close>, \<open>CalcServer\<close>: \<open>Sockets/unix_calc_server.c\<close> and \<open>unix_calc_client.c\<close>. The recursive descent parser,
  with the arithmetic of \<open>double\<close> and \<open>strtod\<close> as parameters and a fuel that is shown to be enough for every input; the grammar
  it accepts; a request and its reply; the set-up of the server, which binds a truncated path and removes the whole one, so that it
  can be started again exactly when the path fits; the loop of the server and its descriptors.

  \<^item> \<open>RingSem\<close>: \<open>SharedMemory/posix_shm_ring_sem.c\<close>, the ring buffer under three semaphores, with its
  refinement of a queue.

  \<^item> \<open>Guarded\<close>, \<open>RecordLocks\<close>, \<open>CounterPrograms\<close>: the four programs in which children increment a shared counter under a lock
  (\<open>mmap_file_lock_counter.c\<close>, \<open>process_shared_mutex.c\<close>, \<open>sysv_binary_semaphore_guard.c\<close>, \<open>ofd_lock_counter.c\<close>). \<open>exclusive_lock\<close> is
  the contract of a lock and \<open>guarded_counter\<close> proves the client once; three locks meet the contract, and the lock on an open
  file description does not.

  \<^item> \<open>SemPrograms\<close>, \<open>Barrier\<close>: the other programs of \<open>Semaphores/\<close>.

  \<^item> \<open>SysVQueue\<close>, \<open>QueuePrograms\<close>: the programs of \<open>MessageQueues/\<close>, over System V and POSIX queues.

  \<^item> \<open>FileLocks\<close>: the other programs of \<open>FileLocking/\<close>, over the table of record locks.

  \<^item> \<open>Signals\<close>, \<open>Reactor\<close>: the programs of \<open>Signals/\<close> and \<open>Pipes/self_pipe_signal_reactor.c\<close>. A process has blocked and
  pending signals; a standard signal is pending at most once, realtime signals queue; a handler runs when its signal is
  delivered; \<open>read\<close> is restarted and \<open>poll\<close> is not.

  \<^item> \<open>PipePrograms\<close>: the other programs of \<open>Pipes/\<close>.

  \<^item> \<open>SocketPrograms\<close>, \<open>EpollEcho\<close>: the other programs of \<open>Sockets/\<close>. Control messages are modelled byte by byte.

  \<^item> \<open>InetPrograms\<close>: the programs of \<open>InternetSockets/\<close>.

  \<^item> \<open>IoPrograms\<close>: the programs of \<open>AlternativeIO/\<close>, and \<open>memfd_sealed_config.c\<close> and \<open>mmap_copy_on_write.c\<close> of
  \<open>SharedMemory/\<close>.

  \<^bold>\<open>What is shown.\<close> For the programs with several processes: that no schedule deadlocks and every schedule
  ends, within a stated number of steps, and what has been printed then and at every moment before; that critical sections exclude each
  other and counters are exact; that a message is delivered once. Where a call whose result is not tested fails, the theorems say
  what the program does instead, which is often to wait for ever. Statements about the absence of deadlock are about
  the steps that do not fail: a state counts as stuck when only a failure or a timeout could still happen. For the code on strings
  and buffers: round trips through the formats, and the bounds within which
  buffers are large enough. Several theorems show behaviour that the authors did not mean: the counter under the lock on the open file
  description loses updates; the two peers of the chat can wait for each other; the two programs that poll a pipe
  written by a signal handler report a timeout when the signal interrupts \<open>poll\<close>.

  \<^bold>\<open>Bounds.\<close> The numbers of processes, iterations and messages are those of the programs. The bounds of the explored systems are numbers of
  steps, larger than those of the longest schedule, which the exploration itself shows. The fuel of the parser is computed from the
  length of the input.

  \<^bold>\<open>Assumptions about the kernel.\<close> The semantics of the calls follows the manual pages of Linux: writes to pipes of up to \<open>PIPE_BUF\<close> bytes are
  atomic; a small write to a connected socket arrives as one piece; \<open>epoll_wait\<close> may report events in any order. Memory is
  sequentially consistent between processes at the granularity of loads and stores. Path names are
  compared as strings: two spellings of one file count as two names. The sleeping calls (\<open>usleep\<close>) do not order
  anything: the theorems hold whatever happens during a sleep. Stdio buffers are modelled where they change what is seen.

  \<^bold>\<open>Not modelled.\<close> The \<open>Makefile\<close>, the shell script that runs the programs, and the documentation. Of the programs: the bytes
  of structures that only the kernel reads (\<open>sockaddr\<close>, \<open>sigaction\<close>, \<open>pollfd\<close>), except for the address in the abstract
  namespace and the control message; modes and owners of files; the rounding of \<open>double\<close>, a parameter of the calculator; signals
  from outside, except where a program waits for one; and the external program \<open>tr\<close>, a parameter of the pipeline.
\<close>

end
